theory Spec2Isabelle
  imports Complex_Main "HOL-Library.Word"
begin

unbundle bit_operations_syntax

text \<open>
  A model of the procedural core of \<open>src/main.js\<close>: the seeded random source, the
  instanced flower field, the wind displacement, the tapered stem, the rose bloom
  surface and the tap interaction. The file holds two versions of the program, one
  after the other; the model follows the first (the one with \<open>createRealRoseStemMesh\<close>
  and the parametric bloom surface). JavaScript numbers are modelled as real numbers,
  32-bit integer operations as operations on \<open>32 word\<close>. What three.js computes
  (curves, frames, merged geometries) is an argument of the functions that use it.
\<close>

section \<open>Interaction trigger (onPointerDown, onRoseTapped)\<close>

text \<open>
  The module-level variables \<open>lastTapTime\<close> and \<open>triggered\<close> are the state of the
  interaction. \<open>lastTapTime\<close> starts at \<open>-Infinity\<close>, so it is either that value or a
  clock reading. The effects of \<open>onRoseTapped\<close> on the page (hiding the hint, showing the
  card, playing the chime) are recorded, in order, in the log \<open>emitted\<close>. The second
  version of the program also calls \<open>rose.pop()\<close> at the same place, under the same
  test of \<open>triggered\<close>.
\<close>

datatype tap_time = NegInfinity | At real

datatype signal = HideHint | ShowCard | PlayChime

record interaction =
  lastTapTime :: tap_time
  triggered :: bool
  emitted :: "signal list"

text \<open>A pointer-down as the handler sees it: the reading of \<open>performance.now()\<close> and
  whether the ray hits the collider (\<open>hits.length\<close> is not zero).\<close>

record pointer_event =
  now :: real
  hits :: bool

definition tapCooldownMs :: real where
  "tapCooldownMs = 900"

definition initial :: interaction where
  "initial = \<lparr>lastTapTime = NegInfinity, triggered = False, emitted = []\<rparr>"

text \<open>\<open>now - lastTapTime < CONFIG.tapCooldownMs\<close>; with \<open>lastTapTime = -Infinity\<close> the
  difference is \<open>+Infinity\<close> and the comparison is false.\<close>

definition in_cooldown :: "real \<Rightarrow> tap_time \<Rightarrow> bool" where
  "in_cooldown n l = (case l of NegInfinity \<Rightarrow> False | At t \<Rightarrow> n - t < tapCooldownMs)"

definition onRoseTapped :: "interaction \<Rightarrow> interaction" where
  "onRoseTapped s =
     (if triggered s then s
      else s\<lparr>triggered := True, emitted := emitted s @ [HideHint, ShowCard, PlayChime]\<rparr>)"

definition onPointerDown :: "pointer_event \<Rightarrow> interaction \<Rightarrow> interaction" where
  "onPointerDown e s =
     (if in_cooldown (now e) (lastTapTime s) then s
      else let s' = s\<lparr>lastTapTime := At (now e)\<rparr>
           in if hits e then onRoseTapped s' else s')"

text \<open>A session: the handler runs once for each pointer-down, in order.\<close>

fun run :: "pointer_event list \<Rightarrow> interaction \<Rightarrow> interaction" where
  "run [] s = s"
| "run (e # es) s = run es (onPointerDown e s)"

text \<open>The \<open>k\<close>-th pointer-down of a session is accepted when it passes the cooldown test,
  in the state the earlier events have left.\<close>

definition accepted_at :: "pointer_event list \<Rightarrow> interaction \<Rightarrow> nat \<Rightarrow> bool" where
  "accepted_at evs s k = (\<not> in_cooldown (now (evs ! k)) (lastTapTime (run (take k evs) s)))"

text \<open>Some pointer-down of the session is accepted and hits the collider.\<close>

definition hit_accepted :: "pointer_event list \<Rightarrow> interaction \<Rightarrow> bool" where
  "hit_accepted evs s = (\<exists>k<length evs. accepted_at evs s k \<and> hits (evs ! k))"

text \<open>A pointer-down at clock reading \<open>n\<close>, hitting the collider or not.\<close>

definition ev :: "real \<Rightarrow> bool \<Rightarrow> pointer_event" where
  "ev n h = \<lparr>now = n, hits = h\<rparr>"

section \<open>Seeded random source (mulberry32, rand, pick)\<close>

text \<open>
  \<open>mulberry32(seed)\<close> returns a closure over one variable \<open>a\<close>, kept in 32 bits by
  \<open>| 0\<close> and \<open>>>> 0\<close>. The model passes \<open>a\<close> explicitly: \<open>mulberry32\<close> gives the first
  state and \<open>rng\<close> is one call of the closure, returning the number drawn and the next
  state. \<open>Math.imul\<close> is multiplication modulo \<open>2 ^ 32\<close>, \<open>>>>\<close> the logical shift.
  JavaScript numbers are modelled as reals; the quotient by \<open>4294967296\<close> is exact in both.
\<close>

type_synonym u32 = "32 word"

definition mulberry32 :: "int \<Rightarrow> u32" where
  "mulberry32 seed = word_of_int seed"

definition imul :: "u32 \<Rightarrow> u32 \<Rightarrow> u32" where
  "imul x y = x * y"

definition rng :: "u32 \<Rightarrow> real \<times> u32" where
  "rng a0 =
     (let a = a0 + 0x6D2B79F5;
          t = imul (a XOR drop_bit 15 a) (1 OR a);
          t = (t + imul (t XOR drop_bit 7 t) (61 OR t)) XOR t
      in (real (unat (t XOR drop_bit 14 t)) / 4294967296, a))"

definition rand :: "real \<Rightarrow> real \<Rightarrow> u32 \<Rightarrow> real \<times> u32" where
  "rand lo hi a = (let (u, a) = rng a in (lo + u * (hi - lo), a))"

text \<open>\<open>arr[Math.floor(rng() * arr.length)]\<close>: the index is below the length of a
  non-empty array, since \<open>rng()\<close> is below 1 (lemma \<open>pick_index_in_range\<close>).\<close>

definition pick_index :: "nat \<Rightarrow> real \<Rightarrow> nat" where
  "pick_index n u = nat \<lfloor>u * real n\<rfloor>"

definition pick :: "'a list \<Rightarrow> u32 \<Rightarrow> 'a \<times> u32" where
  "pick arr a = (let (u, a) = rng a in (arr ! pick_index (length arr) u, a))"

section \<open>Vectors\<close>

text \<open>The operations of three.js's \<open>Vector3\<close> that the builders call, on triples of
  reals. \<open>normalize\<close> divides by \<open>length() || 1\<close>, \<open>setLength(l)\<close> is \<open>normalize\<close>
  followed by \<open>multiplyScalar(l)\<close>, and \<open>lerp(x, y, t)\<close> of \<open>MathUtils\<close> is
  \<open>(1 - t) * x + t * y\<close>.\<close>

type_synonym vec3 = "real \<times> real \<times> real"

fun vadd :: "vec3 \<Rightarrow> vec3 \<Rightarrow> vec3" where
  "vadd (a, b, c) (x, y, z) = (a + x, b + y, c + z)"

fun vsub :: "vec3 \<Rightarrow> vec3 \<Rightarrow> vec3" where
  "vsub (a, b, c) (x, y, z) = (a - x, b - y, c - z)"

fun multiplyScalar :: "vec3 \<Rightarrow> real \<Rightarrow> vec3" where
  "multiplyScalar (a, b, c) s = (a * s, b * s, c * s)"

fun dot :: "vec3 \<Rightarrow> vec3 \<Rightarrow> real" where
  "dot (a, b, c) (x, y, z) = a * x + b * y + c * z"

definition addScaledVector :: "vec3 \<Rightarrow> vec3 \<Rightarrow> real \<Rightarrow> vec3" where
  "addScaledVector u v s = vadd u (multiplyScalar v s)"

definition lengthSq :: "vec3 \<Rightarrow> real" where
  "lengthSq v = dot v v"

definition vlength :: "vec3 \<Rightarrow> real" where
  "vlength v = sqrt (lengthSq v)"

definition normalize :: "vec3 \<Rightarrow> vec3" where
  "normalize v = multiplyScalar v (1 / (if vlength v = 0 then 1 else vlength v))"

definition setLength :: "vec3 \<Rightarrow> real \<Rightarrow> vec3" where
  "setLength v l = multiplyScalar (normalize v) l"

definition lerp :: "real \<Rightarrow> real \<Rightarrow> real \<Rightarrow> real" where
  "lerp x y t = (1 - t) * x + t * y"

section \<open>Instanced flower field (createFlowerField)\<close>

record field_config =
  flowerCount :: nat
  fieldRadius :: real
  clearRadius :: real

text \<open>\<open>CONFIG\<close> as the file sets it; \<open>flowerCount\<close> depends on \<open>isMobile()\<close>.\<close>

definition CONFIG :: "bool \<Rightarrow> field_config" where
  "CONFIG mobile =
     \<lparr>flowerCount = (if mobile then 9000 else 10000), fieldRadius = 120, clearRadius = 12\<rparr>"

definition CONFIG_seed :: int where
  "CONFIG_seed = 20260214"

text \<open>The configuration of the end-to-end scenario of the specification: ten flowers,
  field radius 10, clear radius 2.\<close>

definition scenario :: field_config where
  "scenario = \<lparr>flowerCount = 10, fieldRadius = 10, clearRadius = 2\<rparr>"

text \<open>
  What the loop stores for instance \<open>i\<close>: the arguments of \<open>tmpM.compose\<close> (position,
  the Euler angles given to \<open>setFromEuler\<close> in order \<open>XYZ\<close>, scale), the colour as the
  palette entry picked and the three offsets given to \<open>offsetHSL\<close>, and the two wind
  attributes. The matrix and the RGB triple are functions of these in three.js.
\<close>

record instance_color =
  base :: nat
  offsetH :: real
  offsetS :: real
  offsetL :: real

record flower_instance =
  position :: vec3
  euler :: vec3
  scale :: vec3
  color :: instance_color
  aSway :: real
  aPhase :: real

definition palette :: "nat list" where
  "palette = [0xff69b4, 0xff1493, 0xffb6c1, 0xff6b9d, 0xffc0cb,
              0xff8fab, 0xff91a4, 0xdb7093, 0xffb3d9, 0xff4d88]"

text \<open>One pass of the loop body: fifteen draws, in the order the source makes them.\<close>

definition build_instance :: "field_config \<Rightarrow> u32 \<Rightarrow> flower_instance \<times> u32" where
  "build_instance cfg a0 =
     (let (u, a1) = rand 0 1 a0;
          r = clearRadius cfg + u * (fieldRadius cfg - clearRadius cfg);
          (a, a2) = rand 0 (pi * 2) a1;
          (jx, a3) = rand (- 2.5) 2.5 a2;
          x = cos a * r + jx;
          (jz, a4) = rand (- 2.5) 2.5 a3;
          z = sin a * r + jz;
          (h, a5) = rand 0.6 1.6 a4;
          (s, a6) = rand 0.65 1.4 a5;
          (tiltX, a7) = rand (- 0.18) 0.18 a6;
          (tiltZ, a8) = rand (- 0.18) 0.18 a7;
          (yaw, a9) = rand 0 (pi * 2) a8;
          (c, a10) = pick palette a9;
          (dh, a11) = rand (- 0.02) 0.02 a10;
          (ds, a12) = rand (- 0.03) 0.03 a11;
          (dl, a13) = rand (- 0.04) 0.04 a12;
          (sway, a14) = rand 0.3 1.1 a13;
          (ph, a15) = rand 0 (pi * 2) a14
      in (\<lparr>position = (x, 0, z), euler = (tiltX, yaw, tiltZ), scale = (s, s * h, s),
           color = \<lparr>base = c, offsetH = dh, offsetS = ds, offsetL = dl\<rparr>,
           aSway = sway, aPhase = ph\<rparr>, a15))"

text \<open>\<open>for (let i = 0; i < CONFIG.flowerCount; i++)\<close>: the instances in index order.\<close>

fun field_loop :: "field_config \<Rightarrow> nat \<Rightarrow> u32 \<Rightarrow> flower_instance list \<times> u32" where
  "field_loop cfg 0 a = ([], a)"
| "field_loop cfg (Suc n) a =
     (let (inst, a) = build_instance cfg a;
          (rest, a) = field_loop cfg n a
      in (inst # rest, a))"

text \<open>\<open>buildSingleFlowerGeometry\<close> draws once for each petal of a layer, for the angle
  \<open>(i / layer.count) * Math.PI * 2 + rng() * 0.1\<close>; the layers have 6 and 8 petals.\<close>

fun petal_angles :: "nat \<Rightarrow> nat \<Rightarrow> nat \<Rightarrow> u32 \<Rightarrow> real list \<times> u32" where
  "petal_angles cnt i 0 a = ([], a)"
| "petal_angles cnt i (Suc n) a =
     (let (u, a) = rng a;
          angle = (real i / real cnt) * pi * 2 + u * 0.1;
          (rest, a) = petal_angles cnt (Suc i) n a
      in (angle # rest, a))"

definition buildSingleFlowerGeometry_angles :: "u32 \<Rightarrow> real list \<times> u32" where
  "buildSingleFlowerGeometry_angles a =
     (let (l1, a) = petal_angles 6 0 6 a;
          (l2, a) = petal_angles 8 0 8 a
      in (l1 @ l2, a))"

definition createFlowerField :: "field_config \<Rightarrow> u32 \<Rightarrow> flower_instance list \<times> u32" where
  "createFlowerField cfg a =
     (let (angles, a) = buildSingleFlowerGeometry_angles a
      in field_loop cfg (flowerCount cfg) a)"

text \<open>
  The other random source of the program is \<open>Math.random()\<close>, which the platform seeds.
  It is a stream the run cannot choose, read at a cursor. \<open>createGround\<close> draws from it
  four times for each grass blade, before \<open>createFlowerField\<close> runs.
\<close>

record world =
  rng_a :: u32
  entropy :: "nat \<Rightarrow> real"
  cursor :: nat

definition Math_random :: "world \<Rightarrow> real \<times> world" where
  "Math_random w = (entropy w (cursor w), w\<lparr>cursor := Suc (cursor w)\<rparr>)"

definition heightAt :: "real \<Rightarrow> real \<Rightarrow> real" where
  "heightAt x z = sin (x * 0.035) * 0.09 + cos (z * 0.030) * 0.09 + sin ((x + z) * 0.020) * 0.06"

text \<open>A blade: its position, size and phase.\<close>

fun grass_loop :: "nat \<Rightarrow> world \<Rightarrow> (vec3 \<times> real \<times> real) list \<times> world" where
  "grass_loop 0 w = ([], w)"
| "grass_loop (Suc n) w =
     (let (u1, w) = Math_random w;
          x = (u1 - 0.5) * 250;
          (u2, w) = Math_random w;
          z = (u2 - 0.5) * 250;
          y = heightAt x z + 0.01;
          (u3, w) = Math_random w;
          (u4, w) = Math_random w;
          (rest, w) = grass_loop n w
      in (((x, y, z), 0.035 + u3 * 0.055, u4 * pi * 2) # rest, w))"

definition grassCount :: "bool \<Rightarrow> nat" where
  "grassCount mobile = (if mobile then 22000 else 55000)"

text \<open>\<open>init\<close> up to the field: the module creates the generator from \<open>CONFIG.seed\<close>,
  \<open>initScene\<close> builds the ground, then \<open>createFlowerField\<close> runs on the generator.\<close>

definition boot :: "int \<Rightarrow> (nat \<Rightarrow> real) \<Rightarrow> world" where
  "boot seed ent = \<lparr>rng_a = mulberry32 seed, entropy = ent, cursor = 0\<rparr>"

definition init_field :: "field_config \<Rightarrow> bool \<Rightarrow> world \<Rightarrow> flower_instance list \<times> world" where
  "init_field cfg mobile w =
     (let (grass, w) = grass_loop (grassCount mobile) w;
          (field, a) = createFlowerField cfg (rng_a w)
      in (field, w\<lparr>rng_a := a\<rparr>))"

text \<open>The state of the generator after \<open>k\<close> calls: each call adds \<open>0x6D2B79F5\<close>.\<close>

definition state_after :: "nat \<Rightarrow> u32 \<Rightarrow> u32" where
  "state_after k a = a + of_nat k * 0x6D2B79F5"

section \<open>Wind displacement of the field flowers (applyWindShader)\<close>

text \<open>
  The lines that \<open>applyWindShader\<close> inserts after \<open>begin_vertex\<close> in the vertex shader,
  as a function of the uniform \<open>uTime\<close>, the instance attributes \<open>aSway\<close> and
  \<open>aPhase\<close>, and the vertex \<open>transformed\<close>. \<open>clamp\<close> and \<open>smoothstep\<close> are the GLSL
  built-ins: \<open>clamp(x, lo, hi) = min(max(x, lo), hi)\<close>, and \<open>smoothstep(e0, e1, x)\<close> is
  \<open>t * t * (3 - 2 * t)\<close> for \<open>t = clamp((x - e0) / (e1 - e0), 0, 1)\<close>.
\<close>

definition glsl_clamp :: "real \<Rightarrow> real \<Rightarrow> real \<Rightarrow> real" where
  "glsl_clamp x lo hi = min (max x lo) hi"

definition smoothstep :: "real \<Rightarrow> real \<Rightarrow> real \<Rightarrow> real" where
  "smoothstep e0 e1 x = (let t = glsl_clamp ((x - e0) / (e1 - e0)) 0 1 in t * t * (3 - 2 * t))"

definition wind_vertex :: "real \<Rightarrow> real \<Rightarrow> real \<Rightarrow> vec3 \<Rightarrow> vec3" where
  "wind_vertex uTime sway phase transformed =
     (case transformed of (x, y, z) \<Rightarrow>
        let t = uTime * 1.1 + phase;
            bendX = sin t * 0.12 * sway;
            bendZ = cos (t * 0.85) * 0.09 * sway;
            yMask = glsl_clamp (y * 0.70) 0 1;
            x = x + bendX * yMask;
            z = z + bendZ * yMask;
            topBend = smoothstep 1.2 1.6 y;
            x = x + sin (t * 1.3) * 0.08 * topBend * sway
        in (x, y, z))"

section \<open>Tapered stem (createRealRoseStemMesh)\<close>

text \<open>
  The stem starts as a \<open>TubeGeometry\<close> of radius 1 along the curve; the loop then moves
  every vertex of every ring. The curve (\<open>curve.getPointAt\<close>), the Frenet frames and the
  position attribute come from three.js and are arguments here. The position attribute
  is a list of vertices; \<open>pos.setXYZ\<close> writes into a typed array, where a write beyond the
  end is dropped, as list update does.
\<close>

definition tubularSegments :: nat where
  "tubularSegments = 120"

definition radialSegments :: nat where
  "radialSegments = 14"

definition ringSize :: nat where
  "ringSize = radialSegments + 1"

definition rBase :: real where
  "rBase = 0.052"

definition rTop :: real where
  "rTop = 0.028"

record frames =
  normals :: "vec3 list"
  binormals :: "vec3 list"

text \<open>The body of the inner loop for one vertex \<open>p\<close> of the ring at curve point \<open>c\<close>
  with frame vectors \<open>n\<close> and \<open>b\<close>: the new position.\<close>

definition taper_vertex :: "vec3 \<Rightarrow> vec3 \<Rightarrow> vec3 \<Rightarrow> real \<Rightarrow> vec3 \<Rightarrow> vec3" where
  "taper_vertex c n b r p =
     (let tmp = vsub p c;
          offN = dot tmp n;
          offB = dot tmp b;
          rebuilt = addScaledVector (addScaledVector (0, 0, 0) n offN) b offB;
          rebuilt = (if lengthSq rebuilt < 1 / 10 ^ 8 then multiplyScalar n r
                     else setLength rebuilt r);
          finalPos = vadd c rebuilt
      in finalPos)"

definition taper_ring :: "(real \<Rightarrow> vec3) \<Rightarrow> frames \<Rightarrow> nat \<Rightarrow> vec3 list \<Rightarrow> vec3 list" where
  "taper_ring curve fr i pos =
     (let t = real i / real tubularSegments;
          r = lerp rBase rTop t;
          c = curve t;
          n = normals fr ! i;
          b = binormals fr ! i
      in fold (\<lambda>j pos. let idx = i * ringSize + j
                       in pos[idx := taper_vertex c n b r (pos ! idx)])
           [0..<ringSize] pos)"

text \<open>\<open>for (let i = 0; i <= tubularSegments; i++)\<close>\<close>

definition taper_stem :: "(real \<Rightarrow> vec3) \<Rightarrow> frames \<Rightarrow> vec3 list \<Rightarrow> vec3 list" where
  "taper_stem curve fr pos = fold (taper_ring curve fr) [0..<tubularSegments + 1] pos"

text \<open>\<open>mesh.userData.radiusAt\<close>\<close>

definition radiusAt :: "real \<Rightarrow> real" where
  "radiusAt t = lerp rBase rTop t"

text \<open>The new position of a vertex of ring \<open>i\<close>, with the values the outer loop computes
  for that ring.\<close>

definition ring_vertex :: "(real \<Rightarrow> vec3) \<Rightarrow> frames \<Rightarrow> nat \<Rightarrow> vec3 \<Rightarrow> vec3" where
  "ring_vertex curve fr i p =
     taper_vertex (curve (real i / real tubularSegments)) (normals fr ! i) (binormals fr ! i)
       (lerp rBase rTop (real i / real tubularSegments)) p"

section \<open>Rose bloom surface (buildRealisticRosePetalsGeometry)\<close>

text \<open>
  JavaScript's \<open>%\<close> on numbers is the remainder of the division truncated towards zero,
  so it has the sign of the dividend; the helper \<open>mod\<close> of the source is
  \<open>((n % m) + m) % m\<close>. \<open>clamp\<close> is \<open>THREE.MathUtils.clamp\<close>,
  \<open>Math.max(min, Math.min(max, value))\<close>.
\<close>

definition js_trunc :: "real \<Rightarrow> int" where
  "js_trunc x = (if 0 \<le> x then \<lfloor>x\<rfloor> else \<lceil>x\<rceil>)"

definition js_rem :: "real \<Rightarrow> real \<Rightarrow> real" where
  "js_rem n m = n - m * of_int (js_trunc (n / m))"

definition positive_mod :: "real \<Rightarrow> real \<Rightarrow> real" where
  "positive_mod n m = js_rem (js_rem n m + m) m"

definition clamp :: "real \<Rightarrow> real \<Rightarrow> real \<Rightarrow> real" where
  "clamp v lo hi = max lo (min hi v)"

definition nu :: nat where
  "nu = 28"

definition nv :: nat where
  "nv = 320"

definition TWO_PI :: real where
  "TWO_PI = pi * 2"

definition eps :: real where
  "eps = 0.002"

definition theta :: "nat \<Rightarrow> real" where
  "theta j = - TWO_PI + (real j / real (nv - 1)) * (17 * pi)"

text \<open>The radial value \<open>r\<close> and the height \<open>h\<close> of sample \<open>(i, j)\<close> as computed, before
  the degeneracy test.\<close>

definition rose_raw :: "nat \<Rightarrow> nat \<Rightarrow> real \<times> real" where
  "rose_raw i j =
     (let x = real i / real (nu - 1);
          phi = (pi / 2) * exp (- theta j / (8 * pi));
          t = positive_mod (3.6 * theta j) TWO_PI / pi;
          inner = 1 - t;
          X = 1 - 0.5 * ((5 / 4) * (1 - inner ^ 2) - 0.25) ^ 2;
          X = clamp X 0.05 1.35;
          y = 1.95653 * x ^ 2 * (1.27689 * x - 1) ^ 2 * sin phi;
          r = X * (x * sin phi + y * cos phi);
          h = X * (x * cos phi - y * sin phi)
      in (r, h))"

text \<open>
  The degeneracy test. Numbers are reals in this model, so every computed value is
  finite; the test itself is modelled on values that may be non-finite, to keep the
  branch the source has for them.
\<close>

datatype jsnum = Finite real | NonFinite

definition degeneracy_guard :: "jsnum \<Rightarrow> jsnum \<Rightarrow> real \<times> real" where
  "degeneracy_guard r h =
     (case (r, h) of
        (Finite rv, Finite hv) \<Rightarrow> if rv < eps then (eps, hv) else (rv, hv)
      | _ \<Rightarrow> (eps, 0))"

definition rose_vertex :: "nat \<Rightarrow> nat \<Rightarrow> vec3" where
  "rose_vertex i j =
     (let (r, h) = rose_raw i j;
          (r, h) = degeneracy_guard (Finite r) (Finite h);
          scale = 0.30;
          r = r * scale;
          h = h * scale;
          px = r * sin (theta j);
          py = h + 0.62;
          pz = r * cos (theta j)
      in (px, py, pz))"

text \<open>The buffers are typed arrays of fixed length, zero at first; a write beyond the
  end is dropped, as list update does. \<open>v\<close> and \<open>k\<close> are the running counters.\<close>

definition rose_positions :: "real list" where
  "rose_positions =
     fst (fold (\<lambda>i. fold (\<lambda>j (positions, v).
                  let (px, py, pz) = rose_vertex i j;
                      base = v * 3
                  in (positions[base := px, base + 1 := py, base + 2 := pz], v + 1))
                [0..<nv])
           [0..<nu] (replicate (nu * nv * 3) 0, 0))"

definition rose_indices :: "nat list" where
  "rose_indices =
     fst (fold (\<lambda>i. fold (\<lambda>j (indices, k).
                  let a = i * nv + j;
                      b = (i + 1) * nv + j;
                      c = (i + 1) * nv + (j + 1);
                      d = i * nv + (j + 1)
                  in (indices[k := a, k + 1 := b, k + 2 := d,
                              k + 3 := b, k + 4 := c, k + 5 := d], k + 6))
                [0..<nv - 1])
           [0..<nu - 1] (replicate ((nu - 1) * (nv - 1) * 6) 0, 0))"

text \<open>\<open>BufferAttribute(array, itemSize).count\<close> is \<open>array.length / itemSize\<close>.\<close>

definition attribute_count :: "nat \<Rightarrow> 'a list \<Rightarrow> nat" where
  "attribute_count itemSize array = length array div itemSize"

section \<open>The bloom surface on numbers that may be non-finite\<close>

text \<open>
  The sample computation once more, now with every operation of the source lifted to
  \<open>jsnum\<close>, so that a value can stop being finite. \<open>NonFinite\<close> stands for \<open>NaN\<close> and for
  the two infinities. It arises from a division or a remainder by zero, from a result
  beyond the largest double, and from a store into the \<open>Float32Array\<close> beyond the
  largest single; an operation with a non-finite operand is non-finite (JavaScript
  returns a finite number for a few of these, \<open>1 / Infinity\<close> for one, so the lifted
  operations are non-finite at least where JavaScript's are). Finite values are the
  exact reals: rounding is not modelled.
\<close>

definition MAX_VALUE :: real where
  "MAX_VALUE = (2 - 1 / 2 ^ 52) * 2 ^ 1023"

definition FLOAT32_MAX :: real where
  "FLOAT32_MAX = (2 - 1 / 2 ^ 23) * 2 ^ 127"

definition overflow :: "real \<Rightarrow> jsnum" where
  "overflow v = (if \<bar>v\<bar> \<le> MAX_VALUE then Finite v else NonFinite)"

fun jadd :: "jsnum \<Rightarrow> jsnum \<Rightarrow> jsnum" where
  "jadd (Finite a) (Finite b) = overflow (a + b)"
| "jadd _ _ = NonFinite"

fun jsub :: "jsnum \<Rightarrow> jsnum \<Rightarrow> jsnum" where
  "jsub (Finite a) (Finite b) = overflow (a - b)"
| "jsub _ _ = NonFinite"

fun jmul :: "jsnum \<Rightarrow> jsnum \<Rightarrow> jsnum" where
  "jmul (Finite a) (Finite b) = overflow (a * b)"
| "jmul _ _ = NonFinite"

fun jdiv :: "jsnum \<Rightarrow> jsnum \<Rightarrow> jsnum" where
  "jdiv (Finite a) (Finite b) = (if b = 0 then NonFinite else overflow (a / b))"
| "jdiv _ _ = NonFinite"

text \<open>\<open>n % m\<close>: \<open>NaN\<close> for a zero divisor.\<close>

fun jrem :: "jsnum \<Rightarrow> jsnum \<Rightarrow> jsnum" where
  "jrem (Finite a) (Finite b) = (if b = 0 then NonFinite else Finite (js_rem a b))"
| "jrem _ _ = NonFinite"

fun jneg :: "jsnum \<Rightarrow> jsnum" where
  "jneg (Finite a) = Finite (- a)"
| "jneg NonFinite = NonFinite"

text \<open>\<open>Math.pow(a, k)\<close> and \<open>a ** k\<close> for a literal exponent.\<close>

fun jpow :: "jsnum \<Rightarrow> nat \<Rightarrow> jsnum" where
  "jpow (Finite a) k = overflow (a ^ k)"
| "jpow NonFinite k = NonFinite"

fun jexp :: "jsnum \<Rightarrow> jsnum" where
  "jexp (Finite a) = overflow (exp a)"
| "jexp NonFinite = NonFinite"

fun jsin :: "jsnum \<Rightarrow> jsnum" where
  "jsin (Finite a) = Finite (sin a)"
| "jsin NonFinite = NonFinite"

fun jcos :: "jsnum \<Rightarrow> jsnum" where
  "jcos (Finite a) = Finite (cos a)"
| "jcos NonFinite = NonFinite"

text \<open>The helper \<open>mod = (n, m) => ((n % m) + m) % m\<close>.\<close>

definition jmod :: "jsnum \<Rightarrow> jsnum \<Rightarrow> jsnum" where
  "jmod n m = jrem (jadd (jrem n m) m) m"

text \<open>\<open>THREE.MathUtils.clamp(value, min, max)\<close> with literal bounds.\<close>

fun jclamp :: "jsnum \<Rightarrow> real \<Rightarrow> real \<Rightarrow> jsnum" where
  "jclamp (Finite v) lo hi = Finite (clamp v lo hi)"
| "jclamp NonFinite lo hi = NonFinite"

text \<open>A store into a \<open>Float32Array\<close>.\<close>

fun float32_store :: "jsnum \<Rightarrow> jsnum" where
  "float32_store (Finite v) = (if \<bar>v\<bar> \<le> FLOAT32_MAX then Finite v else NonFinite)"
| "float32_store NonFinite = NonFinite"

definition theta_js :: "nat \<Rightarrow> jsnum" where
  "theta_js j =
     (let PI = Finite pi;
          TWO_PI = jmul PI (Finite 2)
      in jadd (jneg TWO_PI)
           (jmul (jdiv (Finite (real j)) (jsub (Finite (real nv)) (Finite 1)))
                 (jmul (Finite 17) PI)))"

definition rose_raw_js :: "nat \<Rightarrow> nat \<Rightarrow> jsnum \<times> jsnum" where
  "rose_raw_js i j =
     (let PI = Finite pi;
          TWO_PI = jmul PI (Finite 2);
          x = jdiv (Finite (real i)) (jsub (Finite (real nu)) (Finite 1));
          phi = jmul (jdiv PI (Finite 2))
                  (jexp (jdiv (jneg (theta_js j)) (jmul (Finite 8) PI)));
          t = jdiv (jmod (jmul (Finite 3.6) (theta_js j)) TWO_PI) PI;
          inner = jsub (Finite 1) t;
          X = jsub (Finite 1)
                (jmul (Finite 0.5)
                   (jpow (jsub (jmul (jdiv (Finite 5) (Finite 4))
                                  (jsub (Finite 1) (jpow inner 2)))
                            (Finite 0.25)) 2));
          X = jclamp X 0.05 1.35;
          y = jmul (jmul (jmul (Finite 1.95653) (jpow x 2))
                      (jpow (jsub (jmul (Finite 1.27689) x) (Finite 1)) 2))
                (jsin phi);
          r = jmul X (jadd (jmul x (jsin phi)) (jmul y (jcos phi)));
          h = jmul X (jsub (jmul x (jcos phi)) (jmul y (jsin phi)))
      in (r, h))"

text \<open>The three numbers stored for sample \<open>(i, j)\<close>, as read back from the array.\<close>

definition rose_stored :: "nat \<Rightarrow> nat \<Rightarrow> jsnum \<times> jsnum \<times> jsnum" where
  "rose_stored i j =
     (let (r, h) = rose_raw_js i j;
          (r, h) = degeneracy_guard r h;
          scale = Finite 0.30;
          r = jmul (Finite r) scale;
          h = jmul (Finite h) scale;
          px = jmul r (jsin (theta_js j));
          py = jadd h (Finite 0.62);
          pz = jmul r (jcos (theta_js j))
      in (float32_store px, float32_store py, float32_store pz))"

text \<open>\<open>tracks B n v\<close>: the lifted value \<open>n\<close> is finite, it is the real \<open>v\<close>, and \<open>v\<close> is
  at most \<open>B\<close> in size.\<close>

definition tracks :: "real \<Rightarrow> jsnum \<Rightarrow> real \<Rightarrow> bool" where
  "tracks B n v = (n = Finite v \<and> \<bar>v\<bar> \<le> B)"

section \<open>Vertex colours of the flower archetype (buildSingleFlowerGeometry)\<close>

text \<open>The merged position attribute comes from \<open>mergeGeometries\<close> and is an argument,
  as are the four \<open>THREE.Color\<close> values, given by their components.\<close>

type_synonym rgb = "real \<times> real \<times> real"

record flower_colors =
  cStem :: rgb
  cLeaf :: rgb
  cPetal :: rgb
  cCenter :: rgb

definition vertex_color :: "flower_colors \<Rightarrow> vec3 \<Rightarrow> rgb" where
  "vertex_color cs p =
     (case p of (x, y, z) \<Rightarrow>
        let r = sqrt (x * x + z * z)
        in if y < 1.2 then cStem cs
           else if y < 1.35 \<and> r > 0.14 then cLeaf cs
           else if y > 1.48 \<and> r < 0.16 then cCenter cs
           else cPetal cs)"

definition flower_color_buffer :: "flower_colors \<Rightarrow> vec3 list \<Rightarrow> real list" where
  "flower_color_buffer cs pos =
     fold (\<lambda>i colors.
             let (r, g, b) = vertex_color cs (pos ! i)
             in colors[i * 3 + 0 := r, i * 3 + 1 := g, i * 3 + 2 := b])
       [0..<length pos] (replicate (length pos * 3) 0)"

text \<open>What the index loop keeps true of its state: the length of the index array and
  the bound on its entries.\<close>

definition indices_ok :: "nat list \<times> nat \<Rightarrow> bool" where
  "indices_ok st = (length (fst st) = (nu - 1) * (nv - 1) * 6 \<and> (\<forall>x\<in>set (fst st). x < nu * nv))"

section \<open>Properties\<close>


subsection \<open>Bounds on sine, cosine and pi\<close>

lemma sin_lower:
  fixes x :: real
  assumes "0 \<le> x"
  shows "x - x ^ 3 / 6 - x ^ 5 / 120 \<le> sin x"
proof -
  have "{..<5::nat} = {0, 1, 2, 3, 4}" by auto
  then have "(\<Sum>m<5. sin_coeff m * x ^ m) = x - x ^ 3 / 6"
    by (simp add: sin_coeff_def fact_numeral)
  with Maclaurin_sin_bound [of x 5] have "\<bar>sin x - (x - x ^ 3 / 6)\<bar> \<le> inverse (fact 5) * \<bar>x\<bar> ^ 5"
    by simp
  moreover have "inverse (fact 5) * \<bar>x\<bar> ^ 5 = x ^ 5 / 120"
    using assms by (simp add: eval_nat_numeral)
  ultimately show ?thesis by linarith
qed

lemma cos_lower: "1 - x\<^sup>2 / 2 \<le> cos x" for x :: real
proof -
  have "\<bar>sin (x / 2)\<bar> \<le> \<bar>x / 2\<bar>" by (rule abs_sin_x_le_abs_x)
  then have "(sin (x / 2))\<^sup>2 \<le> (x / 2)\<^sup>2" by (simp only: abs_le_square_iff)
  moreover have "cos x = 1 - 2 * (sin (x / 2))\<^sup>2"
    using cos_double_sin [of "x / 2"] by simp
  ultimately show ?thesis by (simp add: power_divide)
qed

lemma pi_ge_3: "3 \<le> pi"
proof -
  have "sin (pi / 6) \<le> pi / 6" by (rule sin_x_le_x) simp
  then show ?thesis by (simp add: sin_30)
qed

lemma cos_16_neg: "cos (8 / 5) < (0::real)"
proof -
  have "(2 / 5 :: real) - (2 / 5) ^ 3 / 6 - (2 / 5) ^ 5 / 120 = 97312 / 250000"
    by (simp add: power_divide)
  with sin_lower [of "2 / 5"] have s: "(97312 / 250000 :: real) \<le> sin (2 / 5)"
    by (simp del: power_divide)
  have "cos (4 / 5 :: real) = 1 - 2 * (sin (2 / 5))\<^sup>2"
    using cos_double_sin [of "2 / 5 :: real"] by simp
  moreover have "(97312 / 250000 :: real)\<^sup>2 \<le> (sin (2 / 5))\<^sup>2"
    using s by (intro power_mono) simp_all
  ultimately have c: "cos (4 / 5) \<le> (697 / 1000 :: real)"
    by (simp add: power2_eq_square)
  have c0: "0 \<le> cos (4 / 5 :: real)"
    using cos_lower [of "4 / 5"] by (simp add: power2_eq_square)
  have "(cos (4 / 5 :: real))\<^sup>2 \<le> (697 / 1000)\<^sup>2"
    using c c0 by (intro power_mono) simp_all
  moreover have "cos (8 / 5 :: real) = 2 * (cos (4 / 5))\<^sup>2 - 1"
    using cos_double_cos [of "4 / 5 :: real"] by simp
  ultimately show ?thesis by (simp add: power2_eq_square)
qed

lemma pi_le_32: "pi \<le> 16 / 5"
proof (rule ccontr)
  assume "\<not> pi \<le> 16 / 5"
  then have "(8 / 5 :: real) \<le> pi / 2" by simp
  then have "0 \<le> cos (8 / 5 :: real)" by (intro cos_ge_zero) simp_all
  with cos_16_neg show False by simp
qed
subsection \<open>Interaction trigger\<close>

lemma run_append: "run (xs @ ys) s = run ys (run xs s)"
  by (induction xs arbitrary: s) simp_all

lemma run_snoc: "run (xs @ [e]) s = onPointerDown e (run xs s)"
  by (simp add: run_append)

lemma onPointerDown_triggered_keeps:
  "triggered s \<Longrightarrow> triggered (onPointerDown e s) \<and> emitted (onPointerDown e s) = emitted s"
  by (simp add: onPointerDown_def onRoseTapped_def Let_def)

lemma run_triggered_keeps:
  "triggered s \<Longrightarrow> triggered (run evs s) \<and> emitted (run evs s) = emitted s"
proof (induction evs arbitrary: s)
  case Nil
  then show ?case by simp
next
  case (Cons e es)
  from Cons.prems have "triggered (onPointerDown e s)" "emitted (onPointerDown e s) = emitted s"
    using onPointerDown_triggered_keeps by blast+
  with Cons.IH [of "onPointerDown e s"] show ?case by simp
qed








text \<open>
  Claim C10. A pointer-down that passes the cooldown test and misses the collider still
  stamps \<open>lastTapTime\<close> and changes nothing else; a pointer-down less than
  \<open>tapCooldownMs\<close> later is ignored, also when it hits the collider.
\<close>

theorem cooldown_consumed_by_miss:
  assumes "\<not> in_cooldown (now e1) (lastTapTime s)" and "\<not> hits e1"
    and "now e2 - now e1 < tapCooldownMs"
  shows "lastTapTime (onPointerDown e1 s) = At (now e1)
         \<and> onPointerDown e1 s = s\<lparr>lastTapTime := At (now e1)\<rparr>
         \<and> onPointerDown e2 (onPointerDown e1 s) = onPointerDown e1 s"
  using assms by (simp add: onPointerDown_def Let_def in_cooldown_def)

theorem cooldown_consumed_by_miss_witness:
  "\<not> in_cooldown (now (ev 1000 False)) (lastTapTime initial) \<and> \<not> hits (ev 1000 False)
   \<and> now (ev 1500 True) - now (ev 1000 False) < tapCooldownMs \<and> hits (ev 1500 True)
   \<and> run [ev 1000 False, ev 1500 True] initial = initial\<lparr>lastTapTime := At 1000\<rparr>
   \<and> \<not> triggered (run [ev 1000 False, ev 1500 True] initial)"
  using cooldown_consumed_by_miss [of "ev 1000 False" initial "ev 1500 True"]
  by (simp add: ev_def initial_def in_cooldown_def tapCooldownMs_def onPointerDown_def
      onRoseTapped_def Let_def)


lemma accepted_at_snoc_old: "k < length xs \<Longrightarrow> accepted_at (xs @ [e]) s k = accepted_at xs s k"
  by (simp add: accepted_at_def nth_append)

lemma accepted_at_snoc_new:
  "accepted_at (xs @ [e]) s (length xs) = (\<not> in_cooldown (now e) (lastTapTime (run xs s)))"
  by (simp add: accepted_at_def)

lemma hit_accepted_snoc:
  "hit_accepted (xs @ [e]) s =
     (hit_accepted xs s \<or> (\<not> in_cooldown (now e) (lastTapTime (run xs s)) \<and> hits e))"
proof -
  have "(\<exists>k<Suc (length xs). accepted_at (xs @ [e]) s k \<and> hits ((xs @ [e]) ! k)) =
        ((\<exists>k<length xs. accepted_at (xs @ [e]) s k \<and> hits ((xs @ [e]) ! k))
          \<or> (accepted_at (xs @ [e]) s (length xs) \<and> hits ((xs @ [e]) ! length xs)))"
    by (auto simp: less_Suc_eq)
  also have "(\<exists>k<length xs. accepted_at (xs @ [e]) s k \<and> hits ((xs @ [e]) ! k)) =
             (\<exists>k<length xs. accepted_at xs s k \<and> hits (xs ! k))"
    by (auto simp: accepted_at_snoc_old nth_append)
  finally show ?thesis
    by (simp add: hit_accepted_def accepted_at_snoc_new)
qed

lemma run_initial_invariant:
  "triggered (run evs initial) = hit_accepted evs initial
   \<and> emitted (run evs initial) =
       (if hit_accepted evs initial then [HideHint, ShowCard, PlayChime] else [])"
proof (induction evs rule: rev_induct)
  case Nil
  show ?case by (simp add: initial_def hit_accepted_def)
next
  case (snoc e xs)
  then show ?case
    by (simp add: run_snoc hit_accepted_snoc onPointerDown_def onRoseTapped_def Let_def)
qed

text \<open>
  Claim C5. Once \<open>triggered\<close> is set it stays set, and no later pointer-down adds to the
  log of signals. From the initial state the log holds the three signals of
  \<open>onRoseTapped\<close> exactly once if some accepted pointer-down hit the collider, and is
  empty otherwise, for every sequence of pointer-downs.
\<close>

theorem trigger_one_shot:
  "(triggered s \<longrightarrow> triggered (run evs s) \<and> emitted (run evs s) = emitted s)
   \<and> triggered (run evs initial) = hit_accepted evs initial
   \<and> emitted (run evs initial) =
       (if hit_accepted evs initial then [HideHint, ShowCard, PlayChime] else [])"
  using run_triggered_keeps [of s evs] run_initial_invariant [of evs] by blast

theorem trigger_one_shot_witness:
  "triggered (run [ev 1000 True] initial)
   \<and> hit_accepted [ev 1000 True, ev 2000 True] initial
   \<and> accepted_at [ev 1000 True, ev 2000 True] initial 1
   \<and> run [ev 2000 True] (run [ev 1000 True] initial)
       = (run [ev 1000 True] initial)\<lparr>lastTapTime := At 2000\<rparr>
   \<and> emitted (run [ev 1000 True, ev 2000 True] initial) = [HideHint, ShowCard, PlayChime]"
  using trigger_one_shot [of "run [ev 1000 True] initial" "[ev 2000 True]"]
    trigger_one_shot [of initial "[ev 1000 True, ev 2000 True]"]
  by (simp add: ev_def initial_def in_cooldown_def tapCooldownMs_def onPointerDown_def
      onRoseTapped_def Let_def hit_accepted_def accepted_at_def)

subsection \<open>Seeded random source\<close>

lemma rng_state: "snd (rng a) = a + 0x6D2B79F5"
  by (simp add: rng_def Let_def)

lemma rng_range: "0 \<le> fst (rng a) \<and> fst (rng a) < 1"
proof -
  obtain w :: u32 where w: "fst (rng a) = real (unat w) / 4294967296"
    unfolding rng_def Let_def fst_conv by blast
  define x where "x = real (unat w)"
  have "unat w < 4294967296"
    using unsigned_less [of w, where ?'a = nat] by simp
  then have "real (unat w) < real 4294967296"
    by (simp only: of_nat_less_iff)
  then have "x < 4294967296" by (simp add: x_def)
  moreover have "0 \<le> x" unfolding x_def by (rule of_nat_0_le_iff)
  moreover have "fst (rng a) = x / 4294967296" unfolding x_def by (rule w)
  ultimately show ?thesis by simp
qed

lemma rand_state: "snd (rand lo hi a) = a + 0x6D2B79F5"
  by (simp add: rand_def split_def Let_def rng_state)

lemma rand_value: "fst (rand lo hi a) = lo + fst (rng a) * (hi - lo)"
  by (simp add: rand_def split_def Let_def)

lemma rand_range:
  assumes "lo \<le> hi"
  shows "lo \<le> fst (rand lo hi a) \<and> fst (rand lo hi a) \<le> hi"
proof -
  let ?u = "fst (rng a)"
  have u: "0 \<le> ?u" "?u \<le> 1" using rng_range [of a] by simp_all
  have "0 \<le> ?u * (hi - lo)" using u(1) assms by simp
  moreover have "?u * (hi - lo) \<le> 1 * (hi - lo)"
    using u(2) assms by (intro mult_right_mono) simp_all
  ultimately show ?thesis by (simp add: rand_value)
qed

lemma pick_state: "snd (pick arr a) = a + 0x6D2B79F5"
  by (simp add: pick_def split_def Let_def rng_state)

lemma pick_index_in_range:
  assumes "0 < n"
  shows "pick_index n (fst (rng a)) < n"
proof -
  let ?u = "fst (rng a)"
  have u: "0 \<le> ?u" "?u < 1" using rng_range [of a] by simp_all
  have "?u * real n < 1 * real n"
    using u(2) assms by (intro mult_strict_right_mono) simp_all
  then have "\<lfloor>?u * real n\<rfloor> < int n" by (simp add: floor_less_iff)
  moreover have "0 \<le> \<lfloor>?u * real n\<rfloor>" using u(1) by simp
  ultimately show ?thesis unfolding pick_index_def by linarith
qed

lemma state_after_0 [simp]: "state_after 0 a = a"
  by (simp add: state_after_def)

lemma state_after_add: "state_after m (state_after n a) = state_after (m + n) a"
  by (simp add: state_after_def algebra_simps)

lemma build_instance_state: "snd (build_instance cfg a) = state_after 15 a"
  by (simp add: build_instance_def split_def Let_def rand_state pick_state state_after_def)

lemma build_instance_position:
  "position (fst (build_instance cfg a)) =
     (cos (fst (rand 0 (pi * 2) (state_after 1 a)))
        * (clearRadius cfg + fst (rand 0 1 a) * (fieldRadius cfg - clearRadius cfg))
        + fst (rand (- 2.5) 2.5 (state_after 2 a)),
      0,
      sin (fst (rand 0 (pi * 2) (state_after 1 a)))
        * (clearRadius cfg + fst (rand 0 1 a) * (fieldRadius cfg - clearRadius cfg))
        + fst (rand (- 2.5) 2.5 (state_after 3 a)))"
  by (simp add: build_instance_def split_def Let_def rand_state state_after_def add.commute)

lemma build_instance_scale:
  "scale (fst (build_instance cfg a)) =
     (fst (rand 0.65 1.4 (state_after 5 a)),
      fst (rand 0.65 1.4 (state_after 5 a)) * fst (rand 0.6 1.6 (state_after 4 a)),
      fst (rand 0.65 1.4 (state_after 5 a)))"
  by (simp add: build_instance_def split_def Let_def rand_state state_after_def add.commute)

lemma field_loop_length: "length (fst (field_loop cfg n a)) = n"
  by (induction n arbitrary: a) (simp_all add: split_def Let_def)

lemma field_loop_state: "snd (field_loop cfg n a) = state_after (15 * n) a"
proof (induction n arbitrary: a)
  case 0
  show ?case by simp
next
  case (Suc n)
  have "snd (field_loop cfg (Suc n) a) = state_after (15 * n) (state_after 15 a)"
    by (simp add: split_def Let_def Suc build_instance_state)
  then show ?case by (simp add: state_after_add add.commute)
qed

lemma field_loop_nth:
  "i < n \<Longrightarrow> fst (field_loop cfg n a) ! i = fst (build_instance cfg (state_after (15 * i) a))"
proof (induction n arbitrary: a i)
  case 0
  then show ?case by simp
next
  case (Suc n)
  show ?case
  proof (cases i)
    case 0
    then show ?thesis by (simp add: split_def Let_def)
  next
    case (Suc k)
    with Suc.prems have "k < n" by simp
    from Suc.IH [OF this, of "snd (build_instance cfg a)"]
    have "fst (field_loop cfg (Suc n) a) ! i
            = fst (build_instance cfg (state_after (15 * k) (state_after 15 a)))"
      by (simp add: Suc split_def Let_def build_instance_state)
    then show ?thesis by (simp add: Suc state_after_add add.commute)
  qed
qed

lemma petal_angles_state: "snd (petal_angles cnt i n a) = state_after n a"
proof (induction n arbitrary: a i)
  case 0
  show ?case by simp
next
  case (Suc n)
  have "snd (petal_angles cnt i (Suc n) a) = state_after n (state_after 1 a)"
    by (simp add: split_def Let_def Suc rng_state state_after_def)
  then show ?case by (simp add: state_after_add add.commute)
qed

lemma buildSingleFlowerGeometry_angles_state:
  "snd (buildSingleFlowerGeometry_angles a) = state_after 14 a"
  by (simp add: buildSingleFlowerGeometry_angles_def split_def Let_def petal_angles_state
      state_after_add)

lemma createFlowerField_length: "length (fst (createFlowerField cfg a)) = flowerCount cfg"
  by (simp add: createFlowerField_def split_def Let_def field_loop_length)

text \<open>Instance \<open>i\<close> of the field is built from the state \<open>14 + 15 * i\<close> calls after the
  state the field build starts in.\<close>

lemma createFlowerField_nth:
  "i < flowerCount cfg \<Longrightarrow>
   fst (createFlowerField cfg a) ! i = fst (build_instance cfg (state_after (14 + 15 * i) a))"
  by (simp add: createFlowerField_def split_def Let_def field_loop_nth
      buildSingleFlowerGeometry_angles_state state_after_add add.commute)

subsection \<open>Determinism of the field\<close>

lemma Math_random_rng_a: "rng_a (snd (Math_random w)) = rng_a w"
  by (simp add: Math_random_def)

lemma grass_loop_rng_a: "rng_a (snd (grass_loop n w)) = rng_a w"
  by (induction n arbitrary: w) (simp_all add: split_def Let_def Math_random_rng_a)

text \<open>The field is a function of the configuration and the seed alone.\<close>

lemma init_field_seed:
  "fst (init_field cfg mobile (boot seed ent)) = fst (createFlowerField cfg (mulberry32 seed))"
  by (simp add: init_field_def split_def Let_def grass_loop_rng_a boot_def)

text \<open>
  Claim C1. Two runs of the program with the same configuration and seed build the same
  sequence of instances (position, Euler angles, scale, colour, sway and phase),
  whatever \<open>Math.random\<close> returns to the ground builder in each run and whatever
  the device: the field is a function of the configuration and the seed.
\<close>

theorem field_deterministic:
  "fst (init_field cfg mobile1 (boot seed ent1)) = fst (init_field cfg mobile2 (boot seed ent2))"
  by (simp add: init_field_seed)

subsection \<open>Placement bounds\<close>

lemma planar_norm_scaled: "0 \<le> r \<Longrightarrow> sqrt ((cos a * r)\<^sup>2 + (sin a * r)\<^sup>2) = r"
proof -
  assume r: "0 \<le> r"
  have "(cos a * r)\<^sup>2 + (sin a * r)\<^sup>2 = ((cos a)\<^sup>2 + (sin a)\<^sup>2) * r\<^sup>2"
    by (simp only: power_mult_distrib distrib_right)
  also have "\<dots> = r\<^sup>2" by (simp only: sin_cos_squared_add2 mult_1_left)
  finally have "(cos a * r)\<^sup>2 + (sin a * r)\<^sup>2 = r\<^sup>2" .
  with r show ?thesis by simp
qed

lemma jitter_norm:
  assumes "\<bar>jx\<bar> \<le> j" and "\<bar>jz\<bar> \<le> j"
  shows "sqrt (jx\<^sup>2 + jz\<^sup>2) \<le> j * sqrt 2"
proof -
  have j: "0 \<le> j" using assms(1) by linarith
  have "jx\<^sup>2 \<le> j\<^sup>2" "jz\<^sup>2 \<le> j\<^sup>2"
    using assms by (simp_all add: abs_le_square_iff [symmetric] j)
  then have "sqrt (jx\<^sup>2 + jz\<^sup>2) \<le> sqrt (j\<^sup>2 * 2)" by simp
  also have "\<dots> = j * sqrt 2" using j by (simp add: real_sqrt_mult)
  finally show ?thesis .
qed

lemma planar_distance_bounds:
  assumes "0 \<le> r" and "\<bar>jx\<bar> \<le> j" and "\<bar>jz\<bar> \<le> j"
  shows "r - j * sqrt 2 \<le> sqrt ((cos a * r + jx)\<^sup>2 + (sin a * r + jz)\<^sup>2)"
    and "sqrt ((cos a * r + jx)\<^sup>2 + (sin a * r + jz)\<^sup>2) \<le> r + j * sqrt 2"
proof -
  let ?d = "sqrt ((cos a * r + jx)\<^sup>2 + (sin a * r + jz)\<^sup>2)"
  have n: "sqrt (jx\<^sup>2 + jz\<^sup>2) \<le> j * sqrt 2" by (rule jitter_norm [OF assms(2,3)])
  have "?d \<le> sqrt ((cos a * r)\<^sup>2 + (sin a * r)\<^sup>2) + sqrt (jx\<^sup>2 + jz\<^sup>2)"
    by (rule real_sqrt_sum_squares_triangle_ineq)
  with n show "?d \<le> r + j * sqrt 2" by (simp add: planar_norm_scaled [OF assms(1)])
  have "sqrt ((cos a * r + jx + - jx)\<^sup>2 + (sin a * r + jz + - jz)\<^sup>2)
          \<le> ?d + sqrt ((- jx)\<^sup>2 + (- jz)\<^sup>2)"
    by (rule real_sqrt_sum_squares_triangle_ineq)
  then have "r \<le> ?d + sqrt (jx\<^sup>2 + jz\<^sup>2)"
    by (simp add: planar_norm_scaled [OF assms(1)])
  with n show "r - j * sqrt 2 \<le> ?d" by simp
qed

lemma vlength_ground: "vlength (x, 0, z) = sqrt (x\<^sup>2 + z\<^sup>2)"
  by (simp add: vlength_def lengthSq_def power2_eq_square)

lemma build_instance_bounds:
  assumes "0 \<le> clearRadius cfg" and "clearRadius cfg \<le> fieldRadius cfg"
  shows "clearRadius cfg - 2.5 * sqrt 2 \<le> vlength (position (fst (build_instance cfg a)))"
    and "vlength (position (fst (build_instance cfg a))) \<le> fieldRadius cfg + 2.5 * sqrt 2"
proof -
  let ?u = "fst (rand 0 1 a)"
  let ?r = "clearRadius cfg + ?u * (fieldRadius cfg - clearRadius cfg)"
  let ?jx = "fst (rand (- 2.5) 2.5 (state_after 2 a))"
  let ?jz = "fst (rand (- 2.5) 2.5 (state_after 3 a))"
  have u: "0 \<le> ?u" "?u \<le> 1" using rand_range [of 0 1 a] by simp_all
  have "0 \<le> ?u * (fieldRadius cfg - clearRadius cfg)" using u(1) assms(2) by simp
  moreover have "?u * (fieldRadius cfg - clearRadius cfg) \<le> 1 * (fieldRadius cfg - clearRadius cfg)"
    using u(2) assms(2) by (intro mult_right_mono) simp_all
  ultimately have r: "clearRadius cfg \<le> ?r" "?r \<le> fieldRadius cfg" by simp_all
  then have r0: "0 \<le> ?r" using assms(1) by linarith
  have jx: "\<bar>?jx\<bar> \<le> 2.5" using rand_range [of "- 2.5" "2.5" "state_after 2 a"] by (auto simp: abs_le_iff)
  have jz: "\<bar>?jz\<bar> \<le> 2.5" using rand_range [of "- 2.5" "2.5" "state_after 3 a"] by (auto simp: abs_le_iff)
  note b = planar_distance_bounds [OF r0 jx jz, of "fst (rand 0 (pi * 2) (state_after 1 a))"]
  have "?r - 2.5 * sqrt 2 \<le> vlength (position (fst (build_instance cfg a)))"
    using b(1) by (simp only: build_instance_position vlength_ground)
  with r(1) show "clearRadius cfg - 2.5 * sqrt 2 \<le> vlength (position (fst (build_instance cfg a)))"
    by linarith
  have "vlength (position (fst (build_instance cfg a))) \<le> ?r + 2.5 * sqrt 2"
    using b(2) by (simp only: build_instance_position vlength_ground)
  with r(2) show "vlength (position (fst (build_instance cfg a))) \<le> fieldRadius cfg + 2.5 * sqrt 2"
    by linarith
qed

lemma build_instance_scale_bounds:
  "\<exists>s h. scale (fst (build_instance cfg a)) = (s, s * h, s)
         \<and> 0.65 \<le> s \<and> s \<le> 1.4 \<and> 0.6 \<le> h \<and> h \<le> 1.6"
  using rand_range [of "0.65" "1.4" "state_after 5 a"] rand_range [of "0.6" "1.6" "state_after 4 a"]
  by (simp add: build_instance_scale)

text \<open>
  Claim C4, as amended. The jitter is added to each horizontal axis separately, so it
  moves an instance by up to \<open>2.5 * sqrt 2\<close>: with
  \<open>0 \<le> clearRadius \<le> fieldRadius\<close>, every instance lies at a distance from the
  origin between \<open>clearRadius - 2.5 * sqrt 2\<close> and \<open>fieldRadius + 2.5 * sqrt 2\<close>,
  and its scale is \<open>(s, s * h, s)\<close> with \<open>s\<close> in \<open>[0.65, 1.4]\<close> and \<open>h\<close> in
  \<open>[0.6, 1.6]\<close>.
\<close>

theorem field_placement_bounds:
  assumes "0 \<le> clearRadius cfg" and "clearRadius cfg \<le> fieldRadius cfg"
    and "i < flowerCount cfg"
  shows "clearRadius cfg - 2.5 * sqrt 2 \<le> vlength (position (fst (createFlowerField cfg a) ! i))
       \<and> vlength (position (fst (createFlowerField cfg a) ! i)) \<le> fieldRadius cfg + 2.5 * sqrt 2
       \<and> (\<exists>s h. scale (fst (createFlowerField cfg a) ! i) = (s, s * h, s)
                 \<and> 0.65 \<le> s \<and> s \<le> 1.4 \<and> 0.6 \<le> h \<and> h \<le> 1.6)"
  using build_instance_bounds [OF assms(1,2)] build_instance_scale_bounds
  by (simp add: createFlowerField_nth [OF assms(3)])

subsection \<open>Two instances of the configured field outside the claimed annulus\<close>

lemma square_sum_expand:
  fixes c s r jx jz :: real
  shows "(c * r + jx)\<^sup>2 + (s * r + jz)\<^sup>2
           = (c\<^sup>2 + s\<^sup>2) * r\<^sup>2 + 2 * r * (jx * c + jz * s) + jx\<^sup>2 + jz\<^sup>2"
  by (simp add: power2_eq_square algebra_simps)

lemma planar_expand:
  fixes a r jx jz :: real
  shows "(cos a * r + jx)\<^sup>2 + (sin a * r + jz)\<^sup>2
           = r\<^sup>2 + 2 * r * (jx * cos a + jz * sin a) + jx\<^sup>2 + jz\<^sup>2"
  by (simp only: square_sum_expand sin_cos_squared_add2 mult_1_left)

text \<open>Instance 4145 of the desktop configuration is built from state \<open>0x2bbea747\<close>.\<close>

lemma instance_4145_draws:
  "state_after 62189 (mulberry32 CONFIG_seed) = 0x2bbea747"
  "fst (rng (0x2bbea747 :: u32)) = 923638 / 4294967296"
  "fst (rng (state_after 1 (0x2bbea747 :: u32))) = 822466239 / 4294967296"
  "fst (rng (state_after 2 (0x2bbea747 :: u32))) = 246074888 / 4294967296"
  "fst (rng (state_after 3 (0x2bbea747 :: u32))) = 1449947836 / 4294967296"
  by (simp_all add: state_after_def mulberry32_def CONFIG_seed_def rng_def imul_def Let_def)

lemma instance_4145_inside:
  "vlength (position (fst (createFlowerField (CONFIG False) (mulberry32 CONFIG_seed)) ! 4145)) < 12"
proof -
  define a :: real where "a = 822466239 / 4294967296 * (pi * 2)"
  define r :: real where "r = 12 + 923638 / 4294967296 * 108"
  define jx :: real where "jx = - 2.5 + 246074888 / 4294967296 * 5"
  define jz :: real where "jz = - 2.5 + 1449947836 / 4294967296 * 5"
  have "fst (createFlowerField (CONFIG False) (mulberry32 CONFIG_seed)) ! 4145
          = fst (build_instance (CONFIG False) 0x2bbea747)"
    using createFlowerField_nth [of 4145 "CONFIG False" "mulberry32 CONFIG_seed"]
    by (simp add: CONFIG_def instance_4145_draws(1))
  moreover have "position (fst (build_instance (CONFIG False) 0x2bbea747))
                   = (cos a * r + jx, 0, sin a * r + jz)"
    unfolding build_instance_position rand_value instance_4145_draws a_def r_def jx_def jz_def
    by (simp add: CONFIG_def)
  ultimately have pos: "position (fst (createFlowerField (CONFIG False) (mulberry32 CONFIG_seed)) ! 4145)
               = (cos a * r + jx, 0, sin a * r + jz)"
    by simp
  have a: "0 \<le> a" "a \<le> pi / 2" by (simp_all add: a_def)
  have c: "0 \<le> cos a" using a by (intro cos_ge_zero) simp_all
  have s: "0 \<le> sin a" using a by (intro sin_ge_zero) simp_all
  have "(cos a + sin a)\<^sup>2 = (cos a)\<^sup>2 + (sin a)\<^sup>2 + 2 * cos a * sin a"
    by (rule power2_sum)
  then have sq: "(cos a + sin a)\<^sup>2 = 1 + 2 * cos a * sin a"
    by (simp only: sin_cos_squared_add2)
  have "0 \<le> 2 * cos a * sin a"
    using c s by (intro mult_nonneg_nonneg) simp_all
  then have "1 \<le> (cos a + sin a)\<^sup>2"
    unfolding sq by linarith
  then have "1\<^sup>2 \<le> (cos a + sin a)\<^sup>2"
    by (simp only: one_power2)
  moreover have "0 \<le> cos a + sin a"
    using c s by (rule add_nonneg_nonneg)
  ultimately have cs: "1 \<le> cos a + sin a"
    by (rule power2_le_imp_le)
  have r: "12 \<le> r" "r \<le> 12.03" by (simp_all add: r_def)
  have jx: "- 2.5 \<le> jx" "jx \<le> - 0.8" by (simp_all add: jx_def)
  have jz: "- 2.5 \<le> jz" "jz \<le> - 0.8" by (simp_all add: jz_def)
  have "jx * cos a \<le> (- 4 / 5) * cos a" using jx(2) c by (intro mult_right_mono) simp_all
  moreover have "jz * sin a \<le> (- 4 / 5) * sin a" using jz(2) s by (intro mult_right_mono) simp_all
  ultimately have "jx * cos a + jz * sin a \<le> (- 4 / 5) * cos a + (- 4 / 5) * sin a"
    by (rule add_mono)
  also have "\<dots> = (- 4 / 5) * (cos a + sin a)" by (simp only: distrib_left)
  also have "\<dots> \<le> (- 4 / 5) * 1" using cs by (intro mult_left_mono_neg) simp_all
  finally have cross: "jx * cos a + jz * sin a \<le> - 0.8" by simp
  define R where "R = r\<^sup>2"
  define C where "C = 2 * r * (jx * cos a + jz * sin a)"
  define JX where "JX = jx\<^sup>2"
  define JZ where "JZ = jz\<^sup>2"
  have "2 * r * (jx * cos a + jz * sin a) \<le> 2 * r * (- 0.8)"
    using cross r(1) by (intro mult_left_mono) simp_all
  also have "\<dots> \<le> - (96 / 5)" using r(1) by simp
  finally have b2: "C \<le> - (96 / 5)" by (simp only: C_def)
  have "r\<^sup>2 \<le> 12.03\<^sup>2" using r by (intro power_mono) simp_all
  also have "(12.03 :: real)\<^sup>2 \<le> 14473 / 100" by (simp add: power2_eq_square)
  finally have b1: "R \<le> 14473 / 100" by (simp only: R_def)
  have "\<bar>jx\<bar> \<le> \<bar>5 / 2\<bar>" using jx by (simp add: abs_le_iff)
  then have "jx\<^sup>2 \<le> (5 / 2)\<^sup>2" by (simp only: abs_le_square_iff)
  then have b3: "JX \<le> 25 / 4" by (simp add: JX_def power2_eq_square)
  have "\<bar>jz\<bar> \<le> \<bar>5 / 2\<bar>" using jz by (simp add: abs_le_iff)
  then have "jz\<^sup>2 \<le> (5 / 2)\<^sup>2" by (simp only: abs_le_square_iff)
  then have b4: "JZ \<le> 25 / 4" by (simp add: JZ_def power2_eq_square)
  have "(cos a * r + jx)\<^sup>2 + (sin a * r + jz)\<^sup>2 = R + C + JX + JZ"
    by (simp only: planar_expand R_def C_def JX_def JZ_def)
  with b1 b2 b3 b4 have "(cos a * r + jx)\<^sup>2 + (sin a * r + jz)\<^sup>2 < 144" by linarith
  then have "(cos a * r + jx)\<^sup>2 + (sin a * r + jz)\<^sup>2 < 12\<^sup>2" by simp
  then have "sqrt ((cos a * r + jx)\<^sup>2 + (sin a * r + jz)\<^sup>2) < 12"
    by (intro real_less_lsqrt) simp_all
  then show ?thesis by (simp only: pos vlength_ground)
qed

text \<open>Instance 1865 of the desktop configuration is built from state \<open>0xc391f4cf\<close>.\<close>

lemma instance_1865_draws:
  "state_after 27989 (mulberry32 CONFIG_seed) = 0xc391f4cf"
  "fst (rng (0xc391f4cf :: u32)) = 4286769840 / 4294967296"
  "fst (rng (state_after 1 (0xc391f4cf :: u32))) = 340206473 / 4294967296"
  "fst (rng (state_after 2 (0xc391f4cf :: u32))) = 4093425082 / 4294967296"
  "fst (rng (state_after 3 (0xc391f4cf :: u32))) = 3822271054 / 4294967296"
  by (simp_all add: state_after_def mulberry32_def CONFIG_seed_def rng_def imul_def Let_def)

lemma instance_1865_outside:
  "122.5 < vlength (position (fst (createFlowerField (CONFIG False) (mulberry32 CONFIG_seed)) ! 1865))"
proof -
  define u :: real where "u = 340206473 / 4294967296"
  define a :: real where "a = u * (pi * 2)"
  define r :: real where "r = 12 + 4286769840 / 4294967296 * 108"
  define jx :: real where "jx = - 2.5 + 4093425082 / 4294967296 * 5"
  define jz :: real where "jz = - 2.5 + 3822271054 / 4294967296 * 5"
  have "fst (createFlowerField (CONFIG False) (mulberry32 CONFIG_seed)) ! 1865
          = fst (build_instance (CONFIG False) 0xc391f4cf)"
    using createFlowerField_nth [of 1865 "CONFIG False" "mulberry32 CONFIG_seed"]
    by (simp add: CONFIG_def instance_1865_draws(1))
  moreover have "position (fst (build_instance (CONFIG False) 0xc391f4cf))
                   = (cos a * r + jx, 0, sin a * r + jz)"
    unfolding build_instance_position rand_value instance_1865_draws a_def u_def r_def jx_def jz_def
    by (simp add: CONFIG_def)
  ultimately have pos: "position (fst (createFlowerField (CONFIG False) (mulberry32 CONFIG_seed)) ! 1865)
               = (cos a * r + jx, 0, sin a * r + jz)"
    by simp
  have u: "99 / 1250 \<le> u" "u \<le> 3961 / 50000" by (simp_all add: u_def)
  have "(99 / 1250) * (3 * 2) \<le> u * (pi * 2)" using u(1) pi_ge_3 by (intro mult_mono) simp_all
  moreover have "(19 / 40 :: real) \<le> (99 / 1250) * (3 * 2)" by simp
  ultimately have a_lo: "19 / 40 \<le> a" unfolding a_def by linarith
  have "u * (pi * 2) \<le> (3961 / 50000) * (16 / 5 * 2)" using u pi_le_32 by (intro mult_mono) simp_all
  moreover have "(3961 / 50000) * (16 / 5 * 2) \<le> (51 / 100 :: real)" by simp
  ultimately have a_hi: "a \<le> 51 / 100" unfolding a_def by linarith
  have "a\<^sup>2 \<le> (51 / 100)\<^sup>2" using a_lo a_hi by (intro power_mono) simp_all
  also have "((51 / 100)::real)\<^sup>2 = 2601 / 10000" by (simp add: power2_eq_square)
  finally have "a\<^sup>2 \<le> 2601 / 10000" .
  with cos_lower [of a] have c: "869 / 1000 \<le> cos a" by linarith
  have "sin (19 / 40) \<le> sin a"
    using a_lo a_hi pi_ge_3 by (intro sin_monotone_2pi_le) simp_all
  moreover have "(19 / 40 :: real) - (19 / 40) ^ 3 / 6 - (19 / 40) ^ 5 / 120 = 1871611967 / 4096000000"
    by (simp add: power_divide)
  moreover have "19 / 40 - (19 / 40) ^ 3 / 6 - (19 / 40) ^ 5 / 120 \<le> sin (19 / 40 :: real)"
    by (rule sin_lower) simp
  ultimately have s: "4569 / 10000 \<le> sin a"
    by linarith
  have r: "11979 / 100 \<le> r" by (simp add: r_def)
  have jx: "453 / 200 \<le> jx" by (simp add: jx_def)
  have jz: "1949 / 1000 \<le> jz" by (simp add: jz_def)
  have "(453 / 200) * (869 / 1000) \<le> jx * cos a" using jx c by (intro mult_mono) simp_all
  moreover have "(1949 / 1000) * (4569 / 10000) \<le> jz * sin a" using jz s by (intro mult_mono) simp_all
  ultimately have cross: "57 / 20 \<le> jx * cos a + jz * sin a" by simp
  define R where "R = r\<^sup>2"
  define C where "C = 2 * r * (jx * cos a + jz * sin a)"
  define JX where "JX = jx\<^sup>2"
  define JZ where "JZ = jz\<^sup>2"
  have "(2 * (11979 / 100)) * (57 / 20) \<le> (2 * r) * (jx * cos a + jz * sin a)"
    using cross r by (intro mult_mono) simp_all
  then have b2: "682 \<le> C" by (simp add: C_def)
  have "(11979 / 100)\<^sup>2 \<le> r\<^sup>2" using r by (intro power_mono) simp_all
  moreover have "(14349 :: real) \<le> (11979 / 100)\<^sup>2" by (simp add: power2_eq_square)
  ultimately have b1: "14349 \<le> R" by (simp only: R_def)
  have b3: "0 \<le> JX" "0 \<le> JZ" by (simp_all add: JX_def JZ_def)
  have "(cos a * r + jx)\<^sup>2 + (sin a * r + jz)\<^sup>2 = R + C + JX + JZ"
    by (simp only: planar_expand R_def C_def JX_def JZ_def)
  with b1 b2 b3 have "60025 / 4 < (cos a * r + jx)\<^sup>2 + (sin a * r + jz)\<^sup>2" by linarith
  moreover have "(122.5 :: real)\<^sup>2 = 60025 / 4" by (simp add: power2_eq_square)
  ultimately have "122.5\<^sup>2 < (cos a * r + jx)\<^sup>2 + (sin a * r + jz)\<^sup>2" by simp
  then have "122.5 < sqrt ((cos a * r + jx)\<^sup>2 + (sin a * r + jz)\<^sup>2)"
    by (rule real_less_rsqrt)
  then show ?thesis by (simp only: pos vlength_ground)
qed

text \<open>Instance 6 of the scenario with ten flowers, radii 2 and 10 and the program's seed
  is built from state \<open>0x5adeb0fe\<close>.\<close>

lemma scenario_6_draws:
  "state_after 104 (mulberry32 CONFIG_seed) = 0x5adeb0fe"
  "fst (rng (0x5adeb0fe :: u32)) = 814842676 / 4294967296"
  "fst (rng (state_after 1 (0x5adeb0fe :: u32))) = 363456031 / 4294967296"
  "fst (rng (state_after 2 (0x5adeb0fe :: u32))) = 57457108 / 4294967296"
  "fst (rng (state_after 3 (0x5adeb0fe :: u32))) = 888123722 / 4294967296"
  by (simp_all add: state_after_def mulberry32_def CONFIG_seed_def rng_def imul_def Let_def)

lemma scenario_6_inside:
  "vlength (position (fst (createFlowerField scenario (mulberry32 CONFIG_seed)) ! 6)) < 2"
proof -
  define u :: real where "u = 363456031 / 4294967296"
  define a :: real where "a = u * (pi * 2)"
  define r :: real where "r = 2 + 814842676 / 4294967296 * 8"
  define jx :: real where "jx = - 2.5 + 57457108 / 4294967296 * 5"
  define jz :: real where "jz = - 2.5 + 888123722 / 4294967296 * 5"
  define x where "x = cos a * r + jx"
  define z where "z = sin a * r + jz"
  have "fst (createFlowerField scenario (mulberry32 CONFIG_seed)) ! 6
          = fst (build_instance scenario 0x5adeb0fe)"
    using createFlowerField_nth [of 6 scenario "mulberry32 CONFIG_seed"]
    by (simp add: scenario_def scenario_6_draws(1))
  moreover have "position (fst (build_instance scenario 0x5adeb0fe)) = (x, 0, z)"
    unfolding build_instance_position rand_value scenario_6_draws x_def z_def a_def u_def r_def
      jx_def jz_def
    by (simp add: scenario_def)
  ultimately have pos: "position (fst (createFlowerField scenario (mulberry32 CONFIG_seed)) ! 6)
                          = (x, 0, z)"
    by simp
  have u: "0 \<le> u" "u \<le> 8463 / 100000" by (simp_all add: u_def)
  have a0: "0 \<le> a" unfolding a_def using u(1) by (intro mult_nonneg_nonneg) simp_all
  have "u * (pi * 2) \<le> (8463 / 100000) * (16 / 5 * 2)"
    using u pi_le_32 by (intro mult_mono) simp_all
  moreover have "(8463 / 100000) * (16 / 5 * 2) \<le> (271 / 500 :: real)" by simp
  ultimately have a1: "a \<le> 271 / 500" unfolding a_def by linarith
  have "a\<^sup>2 \<le> (271 / 500)\<^sup>2" using a0 a1 by (intro power_mono) simp_all
  also have "((271 / 500)::real)\<^sup>2 = 73441 / 250000" by (simp add: power2_eq_square)
  finally have "a\<^sup>2 \<le> 73441 / 250000" .
  with cos_lower [of a] have c: "853 / 1000 \<le> cos a" by linarith
  have c1: "cos a \<le> 1" by simp
  have "a \<le> pi" using a1 pi_ge_3 by linarith
  with a0 have s0: "0 \<le> sin a" by (rule sin_ge_zero)
  have "sin a \<le> a" using a0 by (rule sin_x_le_x)
  with a1 have s1: "sin a \<le> 271 / 500" by linarith
  have r: "3517 / 1000 \<le> r" "r \<le> 3518 / 1000" by (simp_all add: r_def)
  have jx: "- (24332 / 10000) \<le> jx" "jx \<le> - (24331 / 10000)" by (simp_all add: jx_def)
  have jz: "- (14661 / 10000) \<le> jz" "jz \<le> - (1466 / 1000)" by (simp_all add: jz_def)
  have "(853 / 1000) * (3517 / 1000) \<le> cos a * r" using c r(1) by (intro mult_mono) simp_all
  with jx(1) have x0: "0 \<le> x" unfolding x_def by linarith
  have "cos a * r \<le> 1 * (3518 / 1000)" using c c1 r by (intro mult_mono) simp_all
  with jx(2) have x1: "x \<le> 1085 / 1000" unfolding x_def by linarith
  have "0 \<le> sin a * r" using s0 r(1) by (intro mult_nonneg_nonneg) simp_all
  with jz(1) have z0: "- (14661 / 10000) \<le> z" unfolding z_def by linarith
  have "sin a * r \<le> (271 / 500) * (3518 / 1000)" using s0 s1 r by (intro mult_mono) simp_all
  with jz(2) have z1: "z \<le> 14661 / 10000" unfolding z_def by linarith
  have "x\<^sup>2 \<le> (1085 / 1000)\<^sup>2" using x0 x1 by (intro power_mono) simp_all
  moreover have "((1085 / 1000)::real)\<^sup>2 \<le> 118 / 100" by (simp add: power2_eq_square)
  ultimately have X: "x\<^sup>2 \<le> 118 / 100" by linarith
  have "\<bar>z\<bar> \<le> \<bar>14661 / 10000\<bar>" using z0 z1 by (simp add: abs_le_iff)
  then have "z\<^sup>2 \<le> (14661 / 10000)\<^sup>2" by (simp only: abs_le_square_iff)
  moreover have "((14661 / 10000)::real)\<^sup>2 \<le> 215 / 100" by (simp add: power2_eq_square)
  ultimately have Z: "z\<^sup>2 \<le> 215 / 100" by linarith
  from X Z have "x\<^sup>2 + z\<^sup>2 < 2\<^sup>2" by simp
  then have "sqrt (x\<^sup>2 + z\<^sup>2) < 2" by (intro real_less_lsqrt) simp_all
  then show ?thesis by (simp only: pos vlength_ground)
qed

text \<open>
  Claim C4 as stated fails on the program's own configuration and seed: instance 4145
  lies inside the clear radius, and instance 1865 lies further out than
  \<open>fieldRadius + 2.5\<close>. It also fails in the scenario with ten flowers and radii 2 and
  10, for the program's seed: instance 6 lies at a distance below 2.
\<close>

theorem field_placement_counterexample:
  "4145 < flowerCount (CONFIG False) \<and> 1865 < flowerCount (CONFIG False)
   \<and> vlength (position (fst (createFlowerField (CONFIG False) (mulberry32 CONFIG_seed)) ! 4145))
         < clearRadius (CONFIG False)
   \<and> fieldRadius (CONFIG False) + 2.5
         < vlength (position (fst (createFlowerField (CONFIG False) (mulberry32 CONFIG_seed)) ! 1865))
   \<and> 6 < flowerCount scenario
   \<and> vlength (position (fst (createFlowerField scenario (mulberry32 CONFIG_seed)) ! 6))
         < clearRadius scenario"
  using instance_4145_inside instance_1865_outside scenario_6_inside
  by (simp add: CONFIG_def scenario_def)

theorem field_placement_bounds_witness:
  "0 \<le> clearRadius (CONFIG False) \<and> clearRadius (CONFIG False) \<le> fieldRadius (CONFIG False)
   \<and> 4145 < flowerCount (CONFIG False)
   \<and> 12 - 2.5 * sqrt 2
        \<le> vlength (position (fst (createFlowerField (CONFIG False) (mulberry32 CONFIG_seed)) ! 4145))
   \<and> vlength (position (fst (createFlowerField (CONFIG False) (mulberry32 CONFIG_seed)) ! 4145))
        \<le> 120 + 2.5 * sqrt 2"
  using field_placement_bounds [of "CONFIG False" 4145 "mulberry32 CONFIG_seed"]
  by (simp add: CONFIG_def)

subsection \<open>Wind height mask\<close>

lemma glsl_clamp_unit: "0 \<le> glsl_clamp x 0 1 \<and> glsl_clamp x 0 1 \<le> 1"
  by (simp add: glsl_clamp_def)

lemma glsl_clamp_nonpos: "x \<le> 0 \<Longrightarrow> glsl_clamp x 0 1 = 0"
  by (simp add: glsl_clamp_def)

lemma glsl_clamp_above: "1 \<le> x \<Longrightarrow> glsl_clamp x 0 1 = 1"
  by (simp add: glsl_clamp_def)

lemma smoothstep_unit: "0 \<le> smoothstep e0 e1 x \<and> smoothstep e0 e1 x \<le> 1"
proof -
  define t where "t = glsl_clamp ((x - e0) / (e1 - e0)) 0 1"
  have t: "0 \<le> t" "t \<le> 1" using glsl_clamp_unit by (simp_all add: t_def)
  have "0 \<le> t * t * (3 - 2 * t)" using t by (intro mult_nonneg_nonneg) simp_all
  moreover have "1 - t * t * (3 - 2 * t) = (1 - t) * (1 - t) * (1 + 2 * t)"
    by (simp add: algebra_simps)
  moreover have "0 \<le> (1 - t) * (1 - t) * (1 + 2 * t)"
    using t by (intro mult_nonneg_nonneg) simp_all
  ultimately show ?thesis by (simp add: smoothstep_def Let_def t_def [symmetric])
qed

lemma smoothstep_below: "e0 < e1 \<Longrightarrow> x \<le> e0 \<Longrightarrow> smoothstep e0 e1 x = 0"
  by (simp add: smoothstep_def Let_def glsl_clamp_nonpos divide_nonpos_pos)

lemma smoothstep_above:
  assumes "e0 < e1" and "e1 \<le> x"
  shows "smoothstep e0 e1 x = 1"
proof -
  have "1 \<le> (x - e0) / (e1 - e0)" using assms by (simp add: le_divide_eq)
  then show ?thesis by (simp add: smoothstep_def Let_def glsl_clamp_above)
qed

text \<open>
  Claim C9. The wind moves a vertex only horizontally: by the sway terms
  \<open>sin t * 0.12 * aSway\<close> in x and \<open>cos (t * 0.85) * 0.09 * aSway\<close> in z, both times the
  mask \<open>clamp(0.70 * y, 0, 1)\<close>, plus in x the bend \<open>sin (t * 1.3) * 0.08 * aSway\<close> times
  \<open>smoothstep(1.2, 1.6, y)\<close>. Both factors lie in \<open>[0, 1]\<close>, the bend is off up to height
  1.2 and full from height 1.6, and a vertex at height \<open>y \<le> 0\<close> does not move.
\<close>

theorem wind_height_mask:
  "wind_vertex uTime sway phase (x, y, z) =
     (x + sin (uTime * 1.1 + phase) * 0.12 * sway * glsl_clamp (y * 0.70) 0 1
        + sin ((uTime * 1.1 + phase) * 1.3) * 0.08 * smoothstep 1.2 1.6 y * sway,
      y,
      z + cos ((uTime * 1.1 + phase) * 0.85) * 0.09 * sway * glsl_clamp (y * 0.70) 0 1)
   \<and> 0 \<le> glsl_clamp (y * 0.70) 0 1 \<and> glsl_clamp (y * 0.70) 0 1 \<le> 1
   \<and> 0 \<le> smoothstep 1.2 1.6 y \<and> smoothstep 1.2 1.6 y \<le> 1
   \<and> (y \<le> 1.2 \<longrightarrow> smoothstep 1.2 1.6 y = 0)
   \<and> (1.6 \<le> y \<longrightarrow> smoothstep 1.2 1.6 y = 1)
   \<and> (y \<le> 0 \<longrightarrow> wind_vertex uTime sway phase (x, y, z) = (x, y, z))"
proof -
  have eq: "wind_vertex uTime sway phase (x, y, z) =
     (x + sin (uTime * 1.1 + phase) * 0.12 * sway * glsl_clamp (y * 0.70) 0 1
        + sin ((uTime * 1.1 + phase) * 1.3) * 0.08 * smoothstep 1.2 1.6 y * sway,
      y,
      z + cos ((uTime * 1.1 + phase) * 0.85) * 0.09 * sway * glsl_clamp (y * 0.70) 0 1)"
    by (simp add: wind_vertex_def Let_def)
  have lo: "smoothstep 1.2 1.6 y = 0" if "y \<le> 1.2"
    using that by (intro smoothstep_below) simp_all
  have hi: "smoothstep 1.2 1.6 y = 1" if "1.6 \<le> y"
    using that by (intro smoothstep_above) simp_all
  have still: "wind_vertex uTime sway phase (x, y, z) = (x, y, z)" if "y \<le> 0"
  proof -
    from that have "glsl_clamp (y * 0.70) 0 1 = 0"
      by (intro glsl_clamp_nonpos) (simp add: mult_le_0_iff)
    moreover from that have "smoothstep 1.2 1.6 y = 0" by (intro lo) simp
    ultimately show ?thesis by (simp only: eq) simp
  qed
  from eq lo hi still glsl_clamp_unit [of "y * 0.70"] smoothstep_unit [of "1.2" "1.6" y]
  show ?thesis by blast
qed

theorem wind_height_mask_witness:
  "(- 1 :: real) \<le> 0 \<and> wind_vertex 2 1 (1 / 2) (1, - 1, 1) = (1, - 1, 1)
   \<and> smoothstep 1.2 1.6 (- 1) = 0 \<and> glsl_clamp (- 1 * 0.70) 0 1 = 0"
  using wind_height_mask [of 2 1 "1 / 2" 1 "- 1" 1]
  by (simp add: glsl_clamp_def)

subsection \<open>Index and colour buffers\<close>

lemma update_bounded:
  "\<forall>x\<in>set xs. x < (M::nat) \<Longrightarrow> v < M \<Longrightarrow> \<forall>x\<in>set (xs[k := v]). x < M"
  using set_update_subset_insert [of xs k v] by auto

lemma quad_step_ok:
  assumes "i < nu - 1" and "j < nv - 1" and "indices_ok st"
  shows "indices_ok ((\<lambda>(indices, k).
                  let a = i * nv + j;
                      b = (i + 1) * nv + j;
                      c = (i + 1) * nv + (j + 1);
                      d = i * nv + (j + 1)
                  in (indices[k := a, k + 1 := b, k + 2 := d,
                              k + 3 := b, k + 4 := c, k + 5 := d], k + 6)) st)"
proof -
  obtain indices k where st: "st = (indices, k)" by (cases st)
  have "(i + 1) * nv \<le> (nu - 1) * nv" using assms(1) by (intro mult_right_mono) simp_all
  then have c: "(i + 1) * nv + (j + 1) < nu * nv"
    using assms(2) by (simp add: nu_def nv_def)
  then have a: "i * nv + j < nu * nv" and b: "(i + 1) * nv + j < nu * nv"
    and d: "i * nv + (j + 1) < nu * nv" by simp_all
  from assms(3) have "\<forall>x\<in>set indices. x < nu * nv" by (simp add: indices_ok_def st)
  then have "\<forall>x\<in>set (indices[k := i * nv + j, k + 1 := (i + 1) * nv + j, k + 2 := i * nv + (j + 1),
                   k + 3 := (i + 1) * nv + j, k + 4 := (i + 1) * nv + (j + 1),
                   k + 5 := i * nv + (j + 1)]). x < nu * nv"
    by (intro update_bounded a b c d)
  with assms(3) show ?thesis by (simp add: indices_ok_def st Let_def)
qed

lemma rose_indices_ok:
  "length rose_indices = (nu - 1) * (nv - 1) * 6 \<and> (\<forall>x\<in>set rose_indices. x < nu * nv)"
proof -
  have "indices_ok (fold (\<lambda>i. fold (\<lambda>j (indices, k).
                  let a = i * nv + j;
                      b = (i + 1) * nv + j;
                      c = (i + 1) * nv + (j + 1);
                      d = i * nv + (j + 1)
                  in (indices[k := a, k + 1 := b, k + 2 := d,
                              k + 3 := b, k + 4 := c, k + 5 := d], k + 6))
                [0..<nv - 1])
           [0..<nu - 1] (replicate ((nu - 1) * (nv - 1) * 6) 0, 0))"
  proof (rule fold_invariant [where Q = "\<lambda>i. i < nu - 1"])
    show "i < nu - 1" if "i \<in> set [0..<nu - 1]" for i using that by simp
    show "indices_ok (replicate ((nu - 1) * (nv - 1) * 6) 0, 0)"
      by (simp add: indices_ok_def nu_def nv_def)
  next
    fix i st
    assume i: "i < nu - 1" and st: "indices_ok st"
    show "indices_ok (fold (\<lambda>j (indices, k).
                  let a = i * nv + j;
                      b = (i + 1) * nv + j;
                      c = (i + 1) * nv + (j + 1);
                      d = i * nv + (j + 1)
                  in (indices[k := a, k + 1 := b, k + 2 := d,
                              k + 3 := b, k + 4 := c, k + 5 := d], k + 6))
                [0..<nv - 1] st)"
    proof (rule fold_invariant [where Q = "\<lambda>j. j < nv - 1"])
      show "j < nv - 1" if "j \<in> set [0..<nv - 1]" for j using that by simp
      show "indices_ok st" by (rule st)
    next
      fix j st'
      assume "j < nv - 1" and "indices_ok st'"
      with i show "indices_ok (case st' of (indices, k) \<Rightarrow>
                  let a = i * nv + j;
                      b = (i + 1) * nv + j;
                      c = (i + 1) * nv + (j + 1);
                      d = i * nv + (j + 1)
                  in (indices[k := a, k + 1 := b, k + 2 := d,
                              k + 3 := b, k + 4 := c, k + 5 := d], k + 6))"
        by (rule quad_step_ok)
    qed
  qed
  then show ?thesis by (simp add: indices_ok_def rose_indices_def)
qed

lemma rose_positions_length: "length rose_positions = nu * nv * 3"
proof -
  have "length (fst (fold (\<lambda>i. fold (\<lambda>j (positions, v).
                  let (px, py, pz) = rose_vertex i j;
                      base = v * 3
                  in (positions[base := px, base + 1 := py, base + 2 := pz], v + 1))
                [0..<nv])
           [0..<nu] (replicate (nu * nv * 3) 0, 0))) = nu * nv * 3"
  proof (rule fold_invariant [where Q = "\<lambda>i. True" and P = "\<lambda>st. length (fst st) = nu * nv * 3"])
    show "length (fst (replicate (nu * nv * 3) (0::real), 0::nat)) = nu * nv * 3" by simp
  next
    fix i and st :: "real list \<times> nat"
    assume st: "length (fst st) = nu * nv * 3"
    show "length (fst (fold (\<lambda>j (positions, v).
                  let (px, py, pz) = rose_vertex i j;
                      base = v * 3
                  in (positions[base := px, base + 1 := py, base + 2 := pz], v + 1))
                [0..<nv] st)) = nu * nv * 3"
      by (rule fold_invariant [where Q = "\<lambda>i. True" and P = "\<lambda>st. length (fst st) = nu * nv * 3"])
        (simp_all add: st split_def Let_def)
  qed simp
  then show ?thesis by (simp add: rose_positions_def)
qed

lemma flower_color_buffer_length: "length (flower_color_buffer cs pos) = length pos * 3"
  unfolding flower_color_buffer_def
  by (rule fold_invariant [where Q = "\<lambda>i. True" and P = "\<lambda>colors. length colors = length pos * 3"])
    (simp_all add: split_def Let_def)

text \<open>
  Claim C8. The bloom surface has \<open>nu * nv\<close> vertices and \<open>6 * (nu - 1) * (nv - 1)\<close>
  indices, each index below the vertex count; the colour attribute of the flower
  archetype has one entry for each vertex of the merged geometry.
\<close>

theorem mesh_well_formed:
  "attribute_count 3 rose_positions = nu * nv
   \<and> length rose_indices = 6 * (nu - 1) * (nv - 1)
   \<and> (\<forall>k<length rose_indices. rose_indices ! k < attribute_count 3 rose_positions)
   \<and> attribute_count 3 (flower_color_buffer cs pos) = length pos"
  using rose_indices_ok
  by (simp add: attribute_count_def rose_positions_length flower_color_buffer_length)

theorem mesh_well_formed_witness:
  "(0::nat) < length rose_indices \<and> rose_indices ! 0 < 8960
   \<and> attribute_count 3 (flower_color_buffer
        \<lparr>cStem = (0, 1, 0), cLeaf = (0, 1, 0), cPetal = (1, 1, 1), cCenter = (1, 1, 0)\<rparr>
        [(0, 0, 0), (0, 1.5, 0)]) = 2"
  using mesh_well_formed [of
        "\<lparr>cStem = (0, 1, 0), cLeaf = (0, 1, 0), cPetal = (1, 1, 1), cCenter = (1, 1, 0)\<rparr>"
        "[(0, 0, 0), (0, 1.5, 0)]"]
  by (auto simp add: nu_def nv_def attribute_count_def)

subsection \<open>Tapered stem\<close>

lemma vsub_vadd [simp]: "vsub (vadd c v) c = v"
  by (cases c, cases v) simp

lemma vlength_multiplyScalar: "vlength (multiplyScalar v s) = \<bar>s\<bar> * vlength v"
proof (cases v)
  case (fields a b c)
  have "(a * s) * (a * s) + (b * s) * (b * s) + (c * s) * (c * s) = s\<^sup>2 * (a * a + b * b + c * c)"
    by (simp add: power2_eq_square algebra_simps)
  then show ?thesis
    by (simp add: fields vlength_def lengthSq_def real_sqrt_mult)
qed

lemma lengthSq_nonneg: "0 \<le> lengthSq v"
  by (cases v) (simp add: lengthSq_def)

lemma vlength_setLength:
  assumes "0 < lengthSq v"
  shows "vlength (setLength v l) = \<bar>l\<bar>"
proof -
  have pos: "0 < vlength v" using assms by (simp add: vlength_def)
  then have "vlength (normalize v) = 1"
    by (simp add: normalize_def vlength_multiplyScalar)
  then show ?thesis by (simp add: setLength_def vlength_multiplyScalar)
qed

lemma multiplyScalar_twice: "multiplyScalar (multiplyScalar v s) t = multiplyScalar v (s * t)"
  by (cases v) simp

lemma multiplyScalar_vadd:
  "multiplyScalar (vadd u v) s = vadd (multiplyScalar u s) (multiplyScalar v s)"
  by (cases u, cases v) (simp add: algebra_simps)

lemma vadd_zero [simp]: "vadd (0, 0, 0) v = v"
  by (cases v) simp

lemma multiplyScalar_zero [simp]: "multiplyScalar v 0 = (0, 0, 0)"
  by (cases v) simp

lemma vadd_zero_right [simp]: "vadd v (0, 0, 0) = v"
  by (cases v) simp

text \<open>A vertex ends at distance \<open>r\<close> from the curve point, in the plane of the frame.\<close>

lemma taper_vertex_radius:
  assumes "vlength n = 1" and "0 \<le> r"
  shows "vlength (vsub (taper_vertex c n b r p) c) = r"
proof -
  define rebuilt where
    "rebuilt = addScaledVector (addScaledVector (0, 0, 0) n (dot (vsub p c) n)) b (dot (vsub p c) b)"
  show ?thesis
  proof (cases "lengthSq rebuilt < 1 / 10 ^ 8")
    case True
    then have "taper_vertex c n b r p = vadd c (multiplyScalar n r)"
      by (simp add: taper_vertex_def Let_def rebuilt_def)
    then show ?thesis using assms by (simp add: vlength_multiplyScalar)
  next
    case False
    then have "0 < lengthSq rebuilt" by simp
    then have "vlength (setLength rebuilt r) = \<bar>r\<bar>" by (rule vlength_setLength)
    moreover from False have "taper_vertex c n b r p = vadd c (setLength rebuilt r)"
      by (simp add: taper_vertex_def Let_def rebuilt_def)
    ultimately show ?thesis using assms(2) by simp
  qed
qed

lemma taper_vertex_plane:
  "\<exists>\<alpha> \<beta>. vsub (taper_vertex c n b r p) c = vadd (multiplyScalar n \<alpha>) (multiplyScalar b \<beta>)"
proof -
  define rebuilt where
    "rebuilt = addScaledVector (addScaledVector (0, 0, 0) n (dot (vsub p c) n)) b (dot (vsub p c) b)"
  have reb: "rebuilt = vadd (multiplyScalar n (dot (vsub p c) n)) (multiplyScalar b (dot (vsub p c) b))"
    by (simp add: rebuilt_def addScaledVector_def)
  show ?thesis
  proof (cases "lengthSq rebuilt < 1 / 10 ^ 8")
    case True
    then have "vsub (taper_vertex c n b r p) c = vadd (multiplyScalar n r) (multiplyScalar b 0)"
      by (simp add: taper_vertex_def Let_def rebuilt_def)
    then show ?thesis by blast
  next
    case False
    define k where "k = 1 / (if vlength rebuilt = 0 then 1 else vlength rebuilt) * r"
    from False have "vsub (taper_vertex c n b r p) c = setLength rebuilt r"
      by (simp add: taper_vertex_def Let_def rebuilt_def)
    also have "\<dots> = multiplyScalar rebuilt k"
      by (simp add: setLength_def normalize_def multiplyScalar_twice k_def)
    also have "\<dots> = vadd (multiplyScalar n (dot (vsub p c) n * k))
                          (multiplyScalar b (dot (vsub p c) b * k))"
      by (simp add: reb multiplyScalar_vadd multiplyScalar_twice)
    finally show ?thesis by blast
  qed
qed

text \<open>A loop that rewrites the entries at distinct indices, each from its own old
  value, rewrites exactly those entries.\<close>

lemma fold_update_nth:
  assumes "distinct ks" and "\<forall>k\<in>set ks. k < length xs"
  shows "length (fold (\<lambda>k xs. xs[k := g (xs ! k)]) ks xs) = length xs
       \<and> (\<forall>m. fold (\<lambda>k xs. xs[k := g (xs ! k)]) ks xs ! m
               = (if m \<in> set ks then g (xs ! m) else xs ! m))"
  using assms
proof (induction ks arbitrary: xs)
  case Nil
  show ?case by simp
next
  case (Cons k ks)
  let ?ys = "xs[k := g (xs ! k)]"
  from Cons.prems have "distinct ks" and "\<forall>k\<in>set ks. k < length ?ys" by simp_all
  from Cons.IH [OF this]
  have len: "length (fold (\<lambda>k xs. xs[k := g (xs ! k)]) ks ?ys) = length xs"
    and nth: "\<And>m. fold (\<lambda>k xs. xs[k := g (xs ! k)]) ks ?ys ! m
                 = (if m \<in> set ks then g (?ys ! m) else ?ys ! m)"
    by simp_all
  from Cons.prems have k: "k \<notin> set ks" "k < length xs" by simp_all
  show ?case
  proof (intro conjI allI)
    show "length (fold (\<lambda>k xs. xs[k := g (xs ! k)]) (k # ks) xs) = length xs"
      using len by simp
    fix m
    show "fold (\<lambda>k xs. xs[k := g (xs ! k)]) (k # ks) xs ! m
            = (if m \<in> set (k # ks) then g (xs ! m) else xs ! m)"
      using nth [of m] k by (cases "m = k") (auto simp: nth_list_update)
  qed
qed

lemma taper_ring_fold:
  "taper_ring curve fr i pos =
     fold (\<lambda>k xs. xs[k := ring_vertex curve fr i (xs ! k)]) [i * ringSize..<i * ringSize + ringSize] pos"
proof -
  have "[i * ringSize..<i * ringSize + ringSize] = map (\<lambda>j. j + i * ringSize) [0..<ringSize]"
    by (simp add: map_add_upt add.commute)
  then show ?thesis
    by (simp add: taper_ring_def ring_vertex_def Let_def fold_map comp_def add.commute)
qed

lemma taper_ring_nth:
  assumes "i * ringSize + ringSize \<le> length pos"
  shows "length (taper_ring curve fr i pos) = length pos"
    and "taper_ring curve fr i pos ! m =
           (if i * ringSize \<le> m \<and> m < i * ringSize + ringSize
            then ring_vertex curve fr i (pos ! m) else pos ! m)"
proof -
  have "distinct [i * ringSize..<i * ringSize + ringSize]" by simp
  moreover have "\<forall>k\<in>set [i * ringSize..<i * ringSize + ringSize]. k < length pos"
    using assms by simp
  ultimately have *: "length (taper_ring curve fr i pos) = length pos
       \<and> (\<forall>m. taper_ring curve fr i pos ! m
               = (if m \<in> set [i * ringSize..<i * ringSize + ringSize]
                  then ring_vertex curve fr i (pos ! m) else pos ! m))"
    unfolding taper_ring_fold by (rule fold_update_nth)
  from * show "length (taper_ring curve fr i pos) = length pos" by simp
  from * show "taper_ring curve fr i pos ! m =
           (if i * ringSize \<le> m \<and> m < i * ringSize + ringSize
            then ring_vertex curve fr i (pos ! m) else pos ! m)" by simp
qed

lemma taper_rings_nth:
  assumes "n * ringSize \<le> length pos"
  shows "length (fold (taper_ring curve fr) [0..<n] pos) = length pos
       \<and> (\<forall>m. fold (taper_ring curve fr) [0..<n] pos ! m
               = (if m < n * ringSize then ring_vertex curve fr (m div ringSize) (pos ! m)
                  else pos ! m))"
  using assms
proof (induction n)
  case 0
  show ?case by simp
next
  case (Suc n)
  let ?A = "fold (taper_ring curve fr) [0..<n] pos"
  from Suc.prems have n: "n * ringSize + ringSize \<le> length pos" by simp
  with Suc.IH have len: "length ?A = length pos"
    and nth: "\<And>m. ?A ! m = (if m < n * ringSize then ring_vertex curve fr (m div ringSize) (pos ! m)
                              else pos ! m)"
    by simp_all
  from n len have fits: "n * ringSize + ringSize \<le> length ?A" by simp
  have R: "0 < ringSize" by (simp add: ringSize_def)
  have step: "fold (taper_ring curve fr) [0..<Suc n] pos = taper_ring curve fr n ?A" by simp
  show ?case
  proof (intro conjI allI)
    show "length (fold (taper_ring curve fr) [0..<Suc n] pos) = length pos"
      by (simp only: step taper_ring_nth(1) [OF fits] len)
    fix m
    show "fold (taper_ring curve fr) [0..<Suc n] pos ! m
            = (if m < Suc n * ringSize then ring_vertex curve fr (m div ringSize) (pos ! m)
               else pos ! m)"
    proof (cases "n * ringSize \<le> m \<and> m < n * ringSize + ringSize")
      case True
      then have "m div ringSize = n"
        using R by (metis add.commute div_nat_eqI mult.commute mult_Suc_right)
      with True show ?thesis
        by (simp add: step taper_ring_nth(2) [OF fits] nth del: fold_simps upt_Suc)
    next
      case False
      then show ?thesis
        by (auto simp add: step taper_ring_nth(2) [OF fits] nth simp del: upt_Suc)
    qed
  qed
qed

lemma taper_stem_nth:
  assumes "length pos = (tubularSegments + 1) * ringSize"
    and "i \<le> tubularSegments" and "j < ringSize"
  shows "taper_stem curve fr pos ! (i * ringSize + j) = ring_vertex curve fr i (pos ! (i * ringSize + j))"
proof -
  have "i * ringSize + j < i * ringSize + ringSize" using assms(3) by simp
  also have "\<dots> = (i + 1) * ringSize" by simp
  also have "\<dots> \<le> (tubularSegments + 1) * ringSize"
    using assms(2) by (intro mult_right_mono) simp_all
  finally have m: "i * ringSize + j < (tubularSegments + 1) * ringSize" .
  have d: "(i * ringSize + j) div ringSize = i" using assms(3) by simp
  from taper_rings_nth [of "tubularSegments + 1" pos curve fr] assms(1)
  have "taper_stem curve fr pos ! (i * ringSize + j)
          = (if i * ringSize + j < (tubularSegments + 1) * ringSize
             then ring_vertex curve fr ((i * ringSize + j) div ringSize) (pos ! (i * ringSize + j))
             else pos ! (i * ringSize + j))"
    by (simp add: taper_stem_def)
  with m d show ?thesis by simp
qed

lemma lerp_nonneg:
  assumes "0 \<le> x" and "0 \<le> y" and "0 \<le> t" and "t \<le> 1"
  shows "0 \<le> lerp x y t"
proof -
  have "0 \<le> (1 - t) * x" using assms by (intro mult_nonneg_nonneg) simp_all
  moreover have "0 \<le> t * y" using assms by (intro mult_nonneg_nonneg) simp_all
  ultimately show ?thesis by (simp add: lerp_def)
qed

lemma taper_radius_nonneg:
  assumes "i \<le> tubularSegments"
  shows "0 \<le> lerp rBase rTop (real i / real tubularSegments)"
proof -
  have "0 \<le> real i / real tubularSegments" by simp
  moreover have "real i / real tubularSegments \<le> 1"
    using assms by (simp add: tubularSegments_def)
  ultimately show ?thesis
    by (intro lerp_nonneg) (simp_all add: rBase_def rTop_def)
qed

text \<open>
  Claim C7. After the taper loop, every vertex of the ring at curve parameter
  \<open>t = i / tubularSegments\<close> lies at distance \<open>lerp(rBase, rTop, t)\<close> from the curve point
  at \<open>t\<close>, offset from it by a combination of the normal and the binormal of that ring,
  given that the normals of the frames are unit vectors. The radius is \<open>rBase\<close> at
  \<open>t = 0\<close> and \<open>rTop\<close> at \<open>t = 1\<close>.
\<close>

theorem tube_taper_radius:
  assumes "length pos = (tubularSegments + 1) * ringSize"
    and "\<forall>i\<le>tubularSegments. vlength (normals fr ! i) = 1"
    and "i \<le> tubularSegments" and "j < ringSize"
  shows "vlength (vsub (taper_stem curve fr pos ! (i * ringSize + j))
                       (curve (real i / real tubularSegments)))
           = lerp rBase rTop (real i / real tubularSegments)
       \<and> (\<exists>\<alpha> \<beta>. vsub (taper_stem curve fr pos ! (i * ringSize + j))
                        (curve (real i / real tubularSegments))
                 = vadd (multiplyScalar (normals fr ! i) \<alpha>) (multiplyScalar (binormals fr ! i) \<beta>))
       \<and> lerp rBase rTop 0 = rBase \<and> lerp rBase rTop 1 = rTop
       \<and> radiusAt 0 = rBase \<and> radiusAt 1 = rTop"
proof -
  from assms(2,3) have n: "vlength (normals fr ! i) = 1" by simp
  note v = taper_stem_nth [OF assms(1,3,4), of curve fr]
  have "vlength (vsub (ring_vertex curve fr i (pos ! (i * ringSize + j)))
                      (curve (real i / real tubularSegments)))
          = lerp rBase rTop (real i / real tubularSegments)"
    unfolding ring_vertex_def by (rule taper_vertex_radius [OF n taper_radius_nonneg [OF assms(3)]])
  moreover have "\<exists>\<alpha> \<beta>. vsub (ring_vertex curve fr i (pos ! (i * ringSize + j)))
                        (curve (real i / real tubularSegments))
                 = vadd (multiplyScalar (normals fr ! i) \<alpha>) (multiplyScalar (binormals fr ! i) \<beta>)"
    unfolding ring_vertex_def by (rule taper_vertex_plane)
  ultimately show ?thesis
    by (simp add: v lerp_def radiusAt_def)
qed

theorem tube_taper_radius_witness:
  "length (replicate 1815 ((1, 0, 0) :: vec3)) = (tubularSegments + 1) * ringSize
   \<and> vlength (normals \<lparr>normals = replicate 121 (1, 0, 0), binormals = replicate 121 (0, 0, 1)\<rparr> ! 0) = 1
   \<and> 0 \<le> tubularSegments \<and> 0 < ringSize
   \<and> vlength (vsub (taper_stem (\<lambda>t. (0, t, 0))
                      \<lparr>normals = replicate 121 (1, 0, 0), binormals = replicate 121 (0, 0, 1)\<rparr>
                      (replicate 1815 (1, 0, 0)) ! 0) (0, 0, 0)) = rBase"
  using tube_taper_radius [of "replicate 1815 (1, 0, 0)"
      "\<lparr>normals = replicate 121 (1, 0, 0), binormals = replicate 121 (0, 0, 1)\<rparr>" 0 0
      "\<lambda>t. (0, t, 0)"]
  by (simp add: tubularSegments_def ringSize_def radialSegments_def vlength_def lengthSq_def)

subsection \<open>Positive modulo\<close>

lemma js_rem_nonneg:
  assumes "0 < m" and "0 \<le> n"
  shows "0 \<le> js_rem n m \<and> js_rem n m < m"
proof -
  define q where "q = n / m"
  have n: "n = m * q" using assms(1) by (simp add: q_def)
  have q: "0 \<le> q" using assms by (simp add: q_def)
  have "of_int \<lfloor>q\<rfloor> \<le> q" by (rule of_int_floor_le)
  then have lo: "m * of_int \<lfloor>q\<rfloor> \<le> m * q"
    using assms(1) by (intro mult_left_mono) simp_all
  have "q < of_int \<lfloor>q\<rfloor> + 1" by linarith
  then have "m * q < m * (of_int \<lfloor>q\<rfloor> + 1)"
    using assms(1) by (intro mult_strict_left_mono) simp_all
  then have hi: "m * q < m * of_int \<lfloor>q\<rfloor> + m" by (simp add: algebra_simps)
  have "js_rem n m = m * q - m * of_int \<lfloor>q\<rfloor>"
    using q by (simp add: js_rem_def js_trunc_def q_def [symmetric] n [symmetric])
  with lo hi show ?thesis by simp
qed

lemma js_rem_neg:
  assumes "0 < m" and "n < 0"
  shows "- m < js_rem n m \<and> js_rem n m \<le> 0"
proof -
  define q where "q = n / m"
  have n: "n = m * q" using assms(1) by (simp add: q_def)
  have q: "\<not> 0 \<le> q" using assms by (simp add: q_def divide_less_0_iff not_le)
  have "q \<le> of_int \<lceil>q\<rceil>" by (rule le_of_int_ceiling)
  then have hi: "m * q \<le> m * of_int \<lceil>q\<rceil>"
    using assms(1) by (intro mult_left_mono) simp_all
  have "of_int \<lceil>q\<rceil> - 1 < q" by (rule ceiling_correct [THEN conjunct1])
  then have "m * (of_int \<lceil>q\<rceil> - 1) < m * q"
    using assms(1) by (intro mult_strict_left_mono) simp_all
  then have lo: "m * of_int \<lceil>q\<rceil> - m < m * q" by (simp add: algebra_simps)
  have "js_rem n m = m * q - m * of_int \<lceil>q\<rceil>"
    using q by (simp add: js_rem_def js_trunc_def q_def [symmetric] n [symmetric])
  with lo hi show ?thesis by simp
qed

text \<open>The helper \<open>mod\<close> of the source returns a value in \<open>[0, m)\<close> for every \<open>n\<close>,
  negative ones included.\<close>

lemma positive_mod_range:
  assumes "0 < m"
  shows "0 \<le> positive_mod n m \<and> positive_mod n m < m"
proof -
  have "0 \<le> js_rem n m + m"
    using js_rem_nonneg [OF assms, of n] js_rem_neg [OF assms, of n] by (cases "0 \<le> n") simp_all
  then show ?thesis unfolding positive_mod_def by (rule js_rem_nonneg [OF assms])
qed

subsection \<open>The shape term\<close>

lemma shape_term_range:
  fixes t :: real
  assumes "0 \<le> t" and "t < 2"
  shows "1 / 2 \<le> 1 - 0.5 * ((5 / 4) * (1 - (1 - t) ^ 2) - 0.25) ^ 2"
    and "1 - 0.5 * ((5 / 4) * (1 - (1 - t) ^ 2) - 0.25) ^ 2 \<le> 1"
proof -
  define q where "q = (1 - t) ^ 2"
  define w where "w = (5 / 4) * (1 - q) - 0.25"
  have "\<bar>1 - t\<bar> \<le> 1" using assms by (simp add: abs_le_iff)
  then have "(1 - t)\<^sup>2 \<le> 1\<^sup>2" by (simp only: abs_le_square_iff [symmetric] abs_one)
  then have q1: "q \<le> 1" by (simp add: q_def)
  have q0: "0 \<le> q" by (simp add: q_def)
  have "w = 1 - (5 / 4) * q" by (simp add: w_def field_simps)
  with q1 q0 have w: "- 1 \<le> w" "w \<le> 1" by linarith+
  then have "\<bar>w\<bar> \<le> 1" by (simp add: abs_le_iff)
  then have "w\<^sup>2 \<le> 1\<^sup>2" by (simp only: abs_le_square_iff [symmetric] abs_one)
  then have w1: "w ^ 2 \<le> 1" by simp
  have w0: "0 \<le> w ^ 2" by simp
  have e: "1 - 0.5 * ((5 / 4) * (1 - (1 - t) ^ 2) - 0.25) ^ 2 = 1 - 0.5 * w ^ 2"
    by (simp only: w_def q_def)
  from w1 show "1 / 2 \<le> 1 - 0.5 * ((5 / 4) * (1 - (1 - t) ^ 2) - 0.25) ^ 2"
    unfolding e by simp
  from w0 show "1 - 0.5 * ((5 / 4) * (1 - (1 - t) ^ 2) - 0.25) ^ 2 \<le> 1"
    unfolding e by simp
qed

lemma clamp_inside: "lo \<le> v \<Longrightarrow> v \<le> hi \<Longrightarrow> clamp v lo hi = v"
  by (simp add: clamp_def)

subsection \<open>The radial value away from the axis\<close>

lemma petal_profile_bound:
  fixes x :: real
  assumes "0 \<le> x" and "x \<le> 1"
  shows "0 \<le> 1.95653 * x * (1.27689 * x - 1) ^ 2"
    and "1.95653 * x * (1.27689 * x - 1) ^ 2 \<le> 1 / 2"
proof -
  define q where "q = (1.27689 * x - 1) ^ 2"
  have q0: "0 \<le> q" by (simp add: q_def)
  show "0 \<le> 1.95653 * x * (1.27689 * x - 1) ^ 2"
    using assms(1) by (intro mult_nonneg_nonneg) simp_all
  have xq: "x * q \<le> 1 / 4"
  proof (cases "x \<le> 1 / 4")
    case True
    have "\<bar>1.27689 * x - 1\<bar> \<le> 1" using assms by (simp add: abs_le_iff)
    then have "(1.27689 * x - 1)\<^sup>2 \<le> 1\<^sup>2" by (simp only: abs_le_square_iff [symmetric] abs_one)
    then have "q \<le> 1" by (simp add: q_def)
    with True assms(1) q0 have "x * q \<le> (1 / 4) * 1" by (intro mult_mono) simp_all
    then show ?thesis by simp
  next
    case False
    show ?thesis
    proof (cases "x \<le> 1 / 2")
      case True
      with False have "\<bar>1.27689 * x - 1\<bar> \<le> \<bar>7 / 10\<bar>" by (simp add: abs_le_iff)
      then have "(1.27689 * x - 1)\<^sup>2 \<le> (7 / 10)\<^sup>2" by (simp only: abs_le_square_iff)
      then have "q \<le> 49 / 100" by (simp add: q_def power2_eq_square)
      with True assms(1) q0 have "x * q \<le> (1 / 2) * (49 / 100)" by (intro mult_mono) simp_all
      then show ?thesis by simp
    next
      case False
      with assms have "- (1 / 2) \<le> 1.27689 * x - 1" and "1.27689 * x - 1 \<le> 1 / 2" by simp_all
      then have "\<bar>1.27689 * x - 1\<bar> \<le> \<bar>1 / 2\<bar>" by (simp only: abs_le_iff) simp
      then have "(1.27689 * x - 1)\<^sup>2 \<le> (1 / 2)\<^sup>2" by (simp only: abs_le_square_iff)
      then have "q \<le> 1 / 4" by (simp add: q_def power2_eq_square)
      with assms q0 have "x * q \<le> 1 * (1 / 4)" by (intro mult_mono) simp_all
      then show ?thesis by simp
    qed
  qed
  have "1.95653 * x * (1.27689 * x - 1) ^ 2 = 1.95653 * (x * q)" by (simp add: q_def)
  also have "\<dots> \<le> 1.95653 * (1 / 4)" using xq by (intro mult_left_mono) simp_all
  also have "\<dots> \<le> 1 / 2" by simp
  finally show "1.95653 * x * (1.27689 * x - 1) ^ 2 \<le> 1 / 2" .
qed

text \<open>Front of the sheet: the cosine is not negative.\<close>

lemma radial_lower_front:
  fixes X x y S C :: real
  assumes "1 / 2 \<le> X" and "1 / 27 \<le> x" and "0 \<le> y" and "0 \<le> C" and "27 / 250 \<le> S"
  shows "1 / 500 \<le> X * (x * S + y * C)"
proof -
  have "(1 / 27) * (27 / 250) \<le> x * S" using assms by (intro mult_mono) simp_all
  moreover have "0 \<le> y * C" using assms by (intro mult_nonneg_nonneg)
  ultimately have "1 / 250 \<le> x * S + y * C" by simp
  with assms(1) have "(1 / 2) * (1 / 250) \<le> X * (x * S + y * C)"
    by (intro mult_mono) simp_all
  then show ?thesis by simp
qed

text \<open>Back of the sheet: the cosine may be negative, the sine is large.\<close>

lemma radial_lower_back:
  fixes X x g S C :: real
  assumes "1 / 2 \<le> X" and "1 / 27 \<le> x" and "0 \<le> g" and "g \<le> 1 / 2"
    and "- 1 \<le> C" and "54 / 125 \<le> S"
  shows "1 / 500 \<le> X * (x * S + (x * g * S) * C)"
proof -
  define A where "A = x * S"
  define B where "B = A * g"
  have "(1 / 27) * (54 / 125) \<le> x * S" using assms by (intro mult_mono) simp_all
  then have A: "2 / 125 \<le> A" by (simp add: A_def)
  then have A0: "0 \<le> A" by simp
  have B0: "0 \<le> B" unfolding B_def using A0 assms(3) by (rule mult_nonneg_nonneg)
  have "A * g \<le> A * (1 / 2)" using A0 assms(4) by (intro mult_left_mono) simp_all
  then have B1: "B \<le> A / 2" by (simp add: B_def)
  have "B * (- 1) \<le> B * C" using B0 assms(5) by (intro mult_left_mono) simp_all
  then have "- B \<le> B * C" by simp
  with A B1 have "1 / 125 \<le> A + B * C" by linarith
  moreover have "x * S + (x * g * S) * C = A + B * C" by (simp add: A_def B_def mult_ac)
  ultimately have "1 / 125 \<le> x * S + (x * g * S) * C" by simp
  with assms(1) have "(1 / 2) * (1 / 125) \<le> X * (x * S + (x * g * S) * C)"
    by (intro mult_mono) simp_all
  then show ?thesis by simp
qed

lemma theta_exponent:
  "- theta j / (8 * pi) = 1 / 4 - 17 * real j / 2552"
proof -
  define a where "a = 17 * real j / 319 - 2"
  have "theta j = pi * a"
    by (simp add: theta_def TWO_PI_def nv_def a_def algebra_simps)
  then have "- theta j / (8 * pi) = - (pi * a) / (8 * pi)" by simp
  also have "\<dots> = - a / 8" by simp
  also have "\<dots> = 1 / 4 - 17 * real j / 2552" by (simp add: a_def field_simps)
  finally show ?thesis .
qed

lemma unroll_factor_range:
  assumes "j < nv"
  shows "59 / 500 \<le> exp (- theta j / (8 * pi))" and "exp (- theta j / (8 * pi)) \<le> 21 / 16"
proof -
  have j: "real j \<le> 319" using assms by (simp add: nv_def)
  have lo: "- (15 / 8) \<le> - theta j / (8 * pi)" and hi: "- theta j / (8 * pi) \<le> 1 / 4"
    unfolding theta_exponent using j by simp_all
  have "(1 - (15 / 8) / real 8) ^ 8 \<le> exp (- (15 / 8))"
    by (rule exp_ge_one_minus_x_over_n_power_n) simp_all
  moreover have "(59 / 500 :: real) \<le> (1 - (15 / 8) / real 8) ^ 8" by (simp add: power_divide)
  moreover have "exp (- (15 / 8)) \<le> exp (- theta j / (8 * pi))" using lo by simp
  ultimately show "59 / 500 \<le> exp (- theta j / (8 * pi))" by linarith
  have "exp (- theta j / (8 * pi)) \<le> exp (1 / 4)" using hi by simp
  moreover have "exp (1 / 4 :: real) \<le> 1 + 1 / 4 + (1 / 4)\<^sup>2" by (rule exp_bound) simp_all
  moreover have "(1 :: real) + 1 / 4 + (1 / 4)\<^sup>2 = 21 / 16" by (simp add: power2_eq_square)
  ultimately show "exp (- theta j / (8 * pi)) \<le> 21 / 16" by linarith
qed

lemma sin_front:
  fixes E :: real
  assumes "59 / 500 \<le> E" and "E \<le> 1"
  shows "27 / 250 \<le> sin (pi / 2 * E)" and "0 \<le> cos (pi / 2 * E)"
proof -
  have "(3 / 2) * (59 / 500) \<le> pi / 2 * E" using assms(1) pi_ge_3 by (intro mult_mono) simp_all
  then have lo: "177 / 1000 \<le> pi / 2 * E" by simp
  have "pi / 2 * E \<le> pi / 2 * 1" using assms(2) by (intro mult_left_mono) simp_all
  then have hi: "pi / 2 * E \<le> pi / 2" by simp
  have "- (pi / 2) \<le> 177 / 1000" using pi_ge_zero by linarith
  then have "sin (177 / 1000) \<le> sin (pi / 2 * E)"
    using lo hi by (rule sin_monotone_2pi_le)
  moreover have "(177 / 1000 :: real) - (177 / 1000) ^ 3 / 6 - (177 / 1000) ^ 5 / 120
                   \<le> sin (177 / 1000)"
    by (rule sin_lower) simp
  moreover have "(27 / 250 :: real) \<le> 177 / 1000 - (177 / 1000) ^ 3 / 6 - (177 / 1000) ^ 5 / 120"
    by (simp add: power_divide)
  ultimately show "27 / 250 \<le> sin (pi / 2 * E)" by linarith
  have "- (pi / 2) \<le> pi / 2 * E" using lo pi_ge_zero by linarith
  then show "0 \<le> cos (pi / 2 * E)" using hi by (rule cos_ge_zero)
qed

lemma sin_back:
  fixes E :: real
  assumes "1 \<le> E" and "E \<le> 21 / 16"
  shows "54 / 125 \<le> sin (pi / 2 * E)"
proof -
  define psi where "psi = pi - pi / 2 * E"
  have "pi / 2 * E \<le> pi / 2 * (21 / 16)" using assms(2) by (intro mult_left_mono) simp_all
  then have "pi * (11 / 32) \<le> psi" by (simp add: psi_def)
  moreover have "3 * (11 / 32) \<le> pi * (11 / 32)" using pi_ge_3 by (intro mult_right_mono) simp_all
  ultimately have lo: "1 \<le> psi" by simp
  have "pi / 2 * 1 \<le> pi / 2 * E" using assms(1) by (intro mult_left_mono) simp_all
  then have hi: "psi \<le> pi / 2" by (simp add: psi_def)
  have "- (pi / 2) \<le> 1" using pi_ge_zero by linarith
  then have "sin 1 \<le> sin psi" using lo hi by (rule sin_monotone_2pi_le)
  moreover have "(1 :: real) - 1 ^ 3 / 6 - 1 ^ 5 / 120 \<le> sin 1" by (rule sin_lower) simp
  moreover have "sin psi = sin (pi / 2 * E)" unfolding psi_def by (rule sin_pi_minus)
  ultimately show ?thesis by simp
qed

subsection \<open>Degeneracy guard on the sample grid\<close>

text \<open>On finite values the test replaces a radial value below \<open>eps\<close> and keeps the
  height.\<close>

lemma degeneracy_guard_finite:
  "degeneracy_guard (Finite r) (Finite h) = (if r < eps then (eps, h) else (r, h))"
  by (simp add: degeneracy_guard_def)

lemma rose_raw_axis: "rose_raw 0 j = (0, 0)"
  by (simp add: rose_raw_def Let_def)

text \<open>Away from the axis row \<open>i = 0\<close> the radial value is at least \<open>eps\<close>.\<close>

lemma rose_raw_radial:
  assumes "0 < i" and "i < nu" and "j < nv"
  shows "eps \<le> fst (rose_raw i j)"
proof -
  define x where "x = real i / real (nu - 1)"
  define E where "E = exp (- theta j / (8 * pi))"
  define S where "S = sin (pi / 2 * E)"
  define C where "C = cos (pi / 2 * E)"
  define t where "t = positive_mod (3.6 * theta j) TWO_PI / pi"
  define X where "X = clamp (1 - 0.5 * ((5 / 4) * (1 - (1 - t) ^ 2) - 0.25) ^ 2) 0.05 1.35"
  define g where "g = 1.95653 * x * (1.27689 * x - 1) ^ 2"
  have raw: "fst (rose_raw i j) = X * (x * S + (1.95653 * x ^ 2 * (1.27689 * x - 1) ^ 2 * S) * C)"
    by (simp only: rose_raw_def Let_def fst_conv x_def E_def S_def C_def t_def X_def)
  have "1 \<le> real i" "real i \<le> 27" using assms(1,2) by (simp_all add: nu_def)
  then have x: "1 / 27 \<le> x" "x \<le> 1" by (simp_all add: x_def nu_def field_simps)
  then have x0: "0 \<le> x" by simp
  have g: "0 \<le> g" "g \<le> 1 / 2"
    unfolding g_def by (rule petal_profile_bound [OF x0 x(2)])+
  have y: "1.95653 * x ^ 2 * (1.27689 * x - 1) ^ 2 * S = x * g * S"
    by (simp add: g_def power2_eq_square)
  have "0 \<le> positive_mod (3.6 * theta j) TWO_PI \<and> positive_mod (3.6 * theta j) TWO_PI < TWO_PI"
    by (rule positive_mod_range) (simp add: TWO_PI_def)
  then have t: "0 \<le> t" "t < 2"
    by (simp_all add: t_def TWO_PI_def pos_divide_less_eq)
  define V where "V = 1 - 0.5 * ((5 / 4) * (1 - (1 - t) ^ 2) - 0.25) ^ 2"
  have V: "1 / 2 \<le> V" "V \<le> 1"
    unfolding V_def by (rule shape_term_range [OF t])+
  then have "clamp V 0.05 1.35 = V" by (intro clamp_inside) simp_all
  then have "X = V" by (simp only: X_def V_def)
  with V(1) have X: "1 / 2 \<le> X" by simp
  have E: "59 / 500 \<le> E" "E \<le> 21 / 16"
    unfolding E_def by (rule unroll_factor_range [OF assms(3)])+
  have "1 / 500 \<le> X * (x * S + (x * g * S) * C)"
  proof (cases "E \<le> 1")
    case True
    have S: "27 / 250 \<le> S" and C: "0 \<le> C"
      unfolding S_def C_def by (rule sin_front [OF E(1) True])+
    have "0 \<le> x * g * S" using x0 g(1) S by (intro mult_nonneg_nonneg) simp_all
    with X x(1) show ?thesis using C S by (intro radial_lower_front)
  next
    case False
    then have "1 \<le> E" by simp
    then have S: "54 / 125 \<le> S" unfolding S_def using E(2) by (rule sin_back)
    have C: "- 1 \<le> C" by (simp add: C_def)
    from X x(1) g C S show ?thesis by (intro radial_lower_back)
  qed
  then have "1 / 500 \<le> fst (rose_raw i j)" by (simp only: raw y)
  then show ?thesis by (simp add: eps_def)
qed

text \<open>The computed radial value is below \<open>eps\<close> on the axis row and nowhere else.\<close>

lemma degenerate_iff_axis:
  assumes "i < nu" and "j < nv"
  shows "fst (rose_raw i j) < eps \<longleftrightarrow> i = 0"
proof
  assume "fst (rose_raw i j) < eps"
  show "i = 0"
  proof (rule ccontr)
    assume "i \<noteq> 0"
    then have "eps \<le> fst (rose_raw i j)" using assms by (intro rose_raw_radial) simp_all
    with \<open>fst (rose_raw i j) < eps\<close> show False by simp
  qed
next
  assume "i = 0"
  then show "fst (rose_raw i j) < eps" by (simp add: rose_raw_axis eps_def)
qed

text \<open>
  Claim C3. If either value is non-finite the test substitutes \<open>r = eps\<close> and \<open>h = 0\<close>.
  At every sample \<open>(i, j)\<close> of the grid whose computed \<open>r\<close> is below \<open>eps\<close>, the values
  after the test are \<open>r = eps\<close> and \<open>h = 0\<close>, and the vertex is
  \<open>(eps * 0.30 * sin theta, 0.62, eps * 0.30 * cos theta)\<close>: such a sample is on the axis
  row \<open>i = 0\<close>, where the computed \<open>h\<close> is 0 already, which the branch for \<open>r < eps\<close>
  leaves as it is.
\<close>

theorem degenerate_samples_get_eps_and_zero:
  "degeneracy_guard NonFinite h = (eps, 0) \<and> degeneracy_guard r NonFinite = (eps, 0)
   \<and> (i < nu \<longrightarrow> j < nv \<longrightarrow> fst (rose_raw i j) < eps \<longrightarrow>
        degeneracy_guard (Finite (fst (rose_raw i j))) (Finite (snd (rose_raw i j))) = (eps, 0)
        \<and> rose_vertex i j = (eps * 0.30 * sin (theta j), 0.62, eps * 0.30 * cos (theta j)))"
proof -
  have a: "degeneracy_guard NonFinite h = (eps, 0)"
    by (simp add: degeneracy_guard_def)
  have b: "degeneracy_guard r NonFinite = (eps, 0)"
    by (cases r) (simp_all add: degeneracy_guard_def)
  have c: "degeneracy_guard (Finite (fst (rose_raw i j))) (Finite (snd (rose_raw i j))) = (eps, 0)
        \<and> rose_vertex i j = (eps * 0.30 * sin (theta j), 0.62, eps * 0.30 * cos (theta j))"
    if "i < nu" and "j < nv" and "fst (rose_raw i j) < eps"
  proof -
    have "i = 0"
    proof (rule ccontr)
      assume "i \<noteq> 0"
      then have "eps \<le> fst (rose_raw i j)" using that(1,2) by (intro rose_raw_radial) simp_all
      with that(3) show False by simp
    qed
    then show ?thesis
      by (simp add: rose_raw_axis degeneracy_guard_def rose_vertex_def eps_def)
  qed
  from a b c show ?thesis by blast
qed

theorem degenerate_samples_get_eps_and_zero_witness:
  "(0::nat) < nu \<and> (5::nat) < nv \<and> fst (rose_raw 0 5) < eps
   \<and> degeneracy_guard (Finite (fst (rose_raw 0 5))) (Finite (snd (rose_raw 0 5))) = (eps, 0)
   \<and> rose_vertex 0 5 = (eps * 0.30 * sin (theta 5), 0.62, eps * 0.30 * cos (theta 5))"
  using degenerate_samples_get_eps_and_zero [of NonFinite NonFinite 0 5]
  by (simp add: nu_def nv_def eps_def rose_raw_def Let_def)

subsection \<open>Size of the bloom surface\<close>

lemma abs_mult_le:
  fixes a b :: real
  assumes "\<bar>a\<bar> \<le> A" and "\<bar>b\<bar> \<le> B"
  shows "\<bar>a * b\<bar> \<le> A * B"
  unfolding abs_mult using assms by (intro mult_mono) simp_all

text \<open>The computed radial value and height are at most \<open>3 / 2\<close> in absolute value.\<close>

lemma rose_raw_bounded:
  assumes "i < nu" and "j < nv"
  shows "\<bar>fst (rose_raw i j)\<bar> \<le> 3 / 2" and "\<bar>snd (rose_raw i j)\<bar> \<le> 3 / 2"
proof -
  define x where "x = real i / real (nu - 1)"
  define E where "E = exp (- theta j / (8 * pi))"
  define S where "S = sin (pi / 2 * E)"
  define C where "C = cos (pi / 2 * E)"
  define t where "t = positive_mod (3.6 * theta j) TWO_PI / pi"
  define X where "X = clamp (1 - 0.5 * ((5 / 4) * (1 - (1 - t) ^ 2) - 0.25) ^ 2) 0.05 1.35"
  define g where "g = 1.95653 * x * (1.27689 * x - 1) ^ 2"
  have r: "fst (rose_raw i j) = X * (x * S + (1.95653 * x ^ 2 * (1.27689 * x - 1) ^ 2 * S) * C)"
    by (simp only: rose_raw_def Let_def fst_conv x_def E_def S_def C_def t_def X_def)
  have h: "snd (rose_raw i j) = X * (x * C - (1.95653 * x ^ 2 * (1.27689 * x - 1) ^ 2 * S) * S)"
    by (simp only: rose_raw_def Let_def snd_conv x_def E_def S_def C_def t_def X_def)
  have "real i \<le> 27" using assms(1) by (simp add: nu_def)
  then have x: "0 \<le> x" "x \<le> 1" by (simp_all add: x_def nu_def field_simps)
  then have ax: "\<bar>x\<bar> \<le> 1" by simp
  have g: "0 \<le> g" "g \<le> 1 / 2"
    unfolding g_def by (rule petal_profile_bound [OF x])+
  then have ag: "\<bar>g\<bar> \<le> 1 / 2" by simp
  have y: "1.95653 * x ^ 2 * (1.27689 * x - 1) ^ 2 * S = x * g * S"
    by (simp add: g_def power2_eq_square)
  have aS: "\<bar>S\<bar> \<le> 1" and aC: "\<bar>C\<bar> \<le> 1" by (simp_all add: S_def C_def)
  have "0 \<le> positive_mod (3.6 * theta j) TWO_PI \<and> positive_mod (3.6 * theta j) TWO_PI < TWO_PI"
    by (rule positive_mod_range) (simp add: TWO_PI_def)
  then have t: "0 \<le> t" "t < 2"
    by (simp_all add: t_def TWO_PI_def pos_divide_less_eq)
  define V where "V = 1 - 0.5 * ((5 / 4) * (1 - (1 - t) ^ 2) - 0.25) ^ 2"
  have V: "1 / 2 \<le> V" "V \<le> 1"
    unfolding V_def by (rule shape_term_range [OF t])+
  then have "clamp V 0.05 1.35 = V" by (intro clamp_inside) simp_all
  then have "X = V" by (simp only: X_def V_def)
  with V have aX: "\<bar>X\<bar> \<le> 1" by simp
  have xS: "\<bar>x * S\<bar> \<le> 1 * 1" using ax aS by (rule abs_mult_le)
  have xC: "\<bar>x * C\<bar> \<le> 1 * 1" using ax aC by (rule abs_mult_le)
  have "\<bar>x * g\<bar> \<le> 1 * (1 / 2)" using ax ag by (rule abs_mult_le)
  then have y1: "\<bar>x * g * S\<bar> \<le> 1 * (1 / 2) * 1" using aS by (rule abs_mult_le)
  have yS: "\<bar>x * g * S * S\<bar> \<le> 1 * (1 / 2) * 1 * 1" using y1 aS by (rule abs_mult_le)
  have yC: "\<bar>x * g * S * C\<bar> \<le> 1 * (1 / 2) * 1 * 1" using y1 aC by (rule abs_mult_le)
  have "\<bar>x * S + x * g * S * C\<bar> \<le> 3 / 2" using xS yC by linarith
  with aX have "\<bar>X * (x * S + x * g * S * C)\<bar> \<le> 1 * (3 / 2)" by (rule abs_mult_le)
  then show "\<bar>fst (rose_raw i j)\<bar> \<le> 3 / 2" by (simp only: r y mult_1)
  have "\<bar>x * C - x * g * S * S\<bar> \<le> 3 / 2" using xC yS by linarith
  with aX have "\<bar>X * (x * C - x * g * S * S)\<bar> \<le> 1 * (3 / 2)" by (rule abs_mult_le)
  then show "\<bar>snd (rose_raw i j)\<bar> \<le> 3 / 2" by (simp only: h y mult_1)
qed

text \<open>Every vertex of the bloom surface lies within \<open>9 / 20\<close> of the axis in x and z and
  of the height \<open>0.62\<close> in y.\<close>

lemma rose_vertex_bounded:
  assumes "i < nu" and "j < nv" and "rose_vertex i j = (px, py, pz)"
  shows "\<bar>px\<bar> \<le> 9 / 20 \<and> \<bar>py - 0.62\<bar> \<le> 9 / 20 \<and> \<bar>pz\<bar> \<le> 9 / 20"
proof -
  define r where "r = fst (degeneracy_guard (Finite (fst (rose_raw i j))) (Finite (snd (rose_raw i j))))"
  define h where "h = snd (degeneracy_guard (Finite (fst (rose_raw i j))) (Finite (snd (rose_raw i j))))"
  note b = rose_raw_bounded [OF assms(1,2)]
  have r: "\<bar>r\<bar> \<le> 3 / 2" using b(1) by (auto simp add: r_def degeneracy_guard_def eps_def)
  have h: "\<bar>h\<bar> \<le> 3 / 2" using b(2) by (auto simp add: h_def degeneracy_guard_def eps_def)
  have "rose_vertex i j = (r * (3 / 10) * sin (theta j), h * (3 / 10) + 31 / 50, r * (3 / 10) * cos (theta j))"
    by (simp add: rose_vertex_def Let_def split_def r_def h_def)
  with assms(3) have px: "px = r * (3 / 10) * sin (theta j)" and py: "py - 0.62 = h * (3 / 10)"
    and pz: "pz = r * (3 / 10) * cos (theta j)" by simp_all
  have r3: "\<bar>r * (3 / 10)\<bar> \<le> (3 / 2) * (3 / 10)" using r by (intro abs_mult_le) simp_all
  then have "\<bar>r * (3 / 10) * sin (theta j)\<bar> \<le> (3 / 2) * (3 / 10) * 1"
    by (intro abs_mult_le) simp_all
  then have 1: "\<bar>px\<bar> \<le> 9 / 20" unfolding px by simp
  from r3 have "\<bar>r * (3 / 10) * cos (theta j)\<bar> \<le> (3 / 2) * (3 / 10) * 1"
    by (intro abs_mult_le) simp_all
  then have 3: "\<bar>pz\<bar> \<le> 9 / 20" unfolding pz by simp
  have "\<bar>h * (3 / 10)\<bar> \<le> (3 / 2) * (3 / 10)" using h by (intro abs_mult_le) simp_all
  then have 2: "\<bar>py - 0.62\<bar> \<le> 9 / 20" unfolding py by simp
  from 1 2 3 show ?thesis by blast
qed


subsection \<open>The bloom surface on numbers that may be non-finite\<close>

text \<open>\<open>10 ^ 30\<close> is below both limits; every value of the sample computation is far
  below it.\<close>

lemma limit_double: "(10::real) ^ 30 \<le> MAX_VALUE"
  unfolding MAX_VALUE_def by simp

lemma limit_single: "(10::real) ^ 30 \<le> FLOAT32_MAX"
  unfolding FLOAT32_MAX_def by simp

lemma overflow_small: "\<bar>v\<bar> \<le> 10 ^ 30 \<Longrightarrow> overflow v = Finite v"
  unfolding overflow_def using limit_double by auto

text \<open>Each lifted operation returns the real result as long as the bound that follows
  from the bounds of its operands is below the limit.\<close>

lemma tracks_const: "tracks \<bar>c\<bar> (Finite c) c"
  unfolding tracks_def by simp

lemma tracks_weaken: "tracks A n v \<Longrightarrow> A \<le> B \<Longrightarrow> tracks B n v"
  unfolding tracks_def by simp

lemma tracks_add:
  assumes "tracks A n a" and "tracks B m b" and "A + B \<le> 10 ^ 30"
  shows "tracks (A + B) (jadd n m) (a + b)"
proof -
  have "\<bar>a + b\<bar> \<le> A + B" using assms unfolding tracks_def by linarith
  then show ?thesis using assms overflow_small [of "a + b"] unfolding tracks_def by simp
qed

lemma tracks_sub:
  assumes "tracks A n a" and "tracks B m b" and "A + B \<le> 10 ^ 30"
  shows "tracks (A + B) (jsub n m) (a - b)"
proof -
  have "\<bar>a - b\<bar> \<le> A + B" using assms unfolding tracks_def by linarith
  then show ?thesis using assms overflow_small [of "a - b"] unfolding tracks_def by simp
qed

lemma tracks_mul:
  assumes "tracks A n a" and "tracks B m b" and "A * B \<le> 10 ^ 30"
  shows "tracks (A * B) (jmul n m) (a * b)"
proof -
  have "\<bar>a * b\<bar> \<le> A * B"
    using assms unfolding tracks_def abs_mult by (intro mult_mono) auto
  then show ?thesis using assms overflow_small [of "a * b"] unfolding tracks_def by simp
qed

lemma tracks_div:
  assumes "tracks A n a" and "tracks B m b" and "1 \<le> \<bar>b\<bar>" and "A \<le> 10 ^ 30"
  shows "tracks A (jdiv n m) (a / b)"
proof -
  have "\<bar>a / b\<bar> \<le> \<bar>a\<bar>"
  proof -
    have "\<bar>a\<bar> / \<bar>b\<bar> \<le> \<bar>a\<bar> / 1" using assms(3) by (intro divide_left_mono) auto
    then show ?thesis by (simp add: abs_divide)
  qed
  then have "\<bar>a / b\<bar> \<le> A" using assms unfolding tracks_def by linarith
  moreover have "b \<noteq> 0" using assms(3) by auto
  ultimately show ?thesis using assms overflow_small [of "a / b"] unfolding tracks_def by simp
qed

lemma tracks_neg: "tracks A n a \<Longrightarrow> tracks A (jneg n) (- a)"
  unfolding tracks_def by simp

lemma tracks_pow:
  assumes "tracks A n a" and "A ^ k \<le> 10 ^ 30"
  shows "tracks (A ^ k) (jpow n k) (a ^ k)"
proof -
  have "\<bar>a ^ k\<bar> \<le> A ^ k"
    using assms unfolding tracks_def power_abs by (intro power_mono) auto
  then show ?thesis using assms overflow_small [of "a ^ k"] unfolding tracks_def by simp
qed

lemma tracks_sin: "tracks A n a \<Longrightarrow> tracks 1 (jsin n) (sin a)"
  unfolding tracks_def by simp

lemma tracks_cos: "tracks A n a \<Longrightarrow> tracks 1 (jcos n) (cos a)"
  unfolding tracks_def by simp

lemma tracks_exp:
  assumes "tracks A n a" and "exp a \<le> E" and "E \<le> 10 ^ 30"
  shows "tracks E (jexp n) (exp a)"
proof -
  have "\<bar>exp a\<bar> \<le> E" using assms by simp
  then show ?thesis using assms overflow_small [of "exp a"] unfolding tracks_def by simp
qed

lemma tracks_clamp:
  assumes "tracks A n a" and "lo \<le> hi"
  shows "tracks (max \<bar>lo\<bar> \<bar>hi\<bar>) (jclamp n lo hi) (clamp a lo hi)"
  using assms by (auto simp add: tracks_def clamp_def)

text \<open>The helper \<open>mod\<close>: the inner remainder is within \<open>m\<close> of zero, so the sum does not
  overflow, and the outer one is the positive modulo.\<close>

lemma js_rem_abs:
  assumes "0 < m"
  shows "\<bar>js_rem n m\<bar> \<le> m"
proof (cases "0 \<le> n")
  case True
  then show ?thesis using js_rem_nonneg [OF assms, of n] by simp
next
  case False
  then show ?thesis using js_rem_neg [OF assms, of n] by simp
qed

lemma tracks_mod:
  assumes "tracks A n a" and "tracks B m b" and "0 < b" and "2 * B \<le> 10 ^ 30"
  shows "tracks B (jmod n m) (positive_mod a b)"
proof -
  have n: "n = Finite a" and m: "m = Finite b" and bB: "b \<le> B"
    using assms unfolding tracks_def by auto
  have "\<bar>js_rem a b + b\<bar> \<le> 10 ^ 30" using js_rem_abs [OF assms(3), of a] bB assms(4) by linarith
  then have 1: "jadd (jrem n m) m = Finite (js_rem a b + b)"
    using assms(3) overflow_small by (simp add: n m)
  have 2: "jmod n m = Finite (positive_mod a b)"
    unfolding jmod_def 1 positive_mod_def using assms(3) by (simp add: m)
  have "\<bar>positive_mod a b\<bar> \<le> B" using positive_mod_range [OF assms(3), of a] bB by linarith
  with 2 show ?thesis unfolding tracks_def by simp
qed

text \<open>The lifted operations do leave the finite values: on a zero divisor, beyond the
  largest double, and at a store beyond the largest single.\<close>

lemma nonfinite_arises:
  "jdiv (Finite 1) (Finite 0) = NonFinite"
  "jrem (Finite 1) (Finite 0) = NonFinite"
  "jpow (Finite (10 ^ 200)) 2 = NonFinite"
  "float32_store (Finite (10 ^ 39)) = NonFinite"
  by (simp_all add: overflow_def MAX_VALUE_def FLOAT32_MAX_def)

text \<open>The divisors \<open>nu - 1\<close> and \<open>nv - 1\<close> are not zero, and the quotient is in \<open>[0, 1]\<close>.\<close>


lemma tracks_ratio:
  assumes "k < n" and "2 \<le> n" and "n \<le> 1000"
  shows "tracks 1 (jdiv (Finite (real k)) (jsub (Finite (real n)) (Finite 1))) (real k / real (n - 1))"
proof -
  have eq: "real n - 1 = real (n - 1)" using assms by (simp add: of_nat_diff)
  have "\<bar>real n - 1\<bar> \<le> 10 ^ 30" using assms by simp
  then have 1: "jsub (Finite (real n)) (Finite 1) = Finite (real (n - 1))"
    using overflow_small [of "real n - 1"] by (simp add: eq)
  have pos: "0 < real (n - 1)" using assms by simp
  have le: "real k \<le> real (n - 1)" using assms by simp
  have 2: "\<bar>real k / real (n - 1)\<bar> \<le> 1" using pos le by simp
  then have "\<bar>real k / real (n - 1)\<bar> \<le> 10 ^ 30" by simp
  then have "jdiv (Finite (real k)) (Finite (real (n - 1))) = Finite (real k / real (n - 1))"
    using pos overflow_small by simp
  with 1 2 show ?thesis unfolding tracks_def by simp
qed

text \<open>The angle, the unroll factor and the positive modulo of sample column \<open>j\<close>.\<close>

lemma tracks_theta:
  assumes "j < nv"
  shows "tracks 64 (theta_js j) (theta j)"
proof -
  have r: "tracks 1 (jdiv (Finite (real j)) (jsub (Finite (real nv)) (Finite 1))) (real j / real (nv - 1))"
    using assms by (intro tracks_ratio) (simp_all add: nv_def)
  show ?thesis
    unfolding theta_js_def theta_def TWO_PI_def Let_def
    apply (insert pi_ge_3 pi_le_32)
    apply (rule tracks_weaken)
     apply (rule r tracks_add tracks_neg tracks_mul tracks_const | (simp; fail))+
    done
qed


lemma tracks_unroll:
  assumes "j < nv"
  shows "tracks (21 / 16) (jexp (jdiv (jneg (theta_js j)) (jmul (Finite 8) (Finite pi))))
                          (exp (- theta j / (8 * pi)))"
proof -
  note th = tracks_theta [OF assms]
  show ?thesis
    apply (insert pi_ge_3 pi_le_32)
    apply (rule tracks_exp)
      apply (rule th tracks_div tracks_neg tracks_mul tracks_const | (simp; fail))+
     apply (rule unroll_factor_range (2) [OF assms])
    apply simp
    done
qed

lemma tracks_positive_mod:
  assumes "j < nv"
  shows "tracks 8 (jmod (jmul (Finite 3.6) (theta_js j)) (jmul (Finite pi) (Finite 2)))
                  (positive_mod (3.6 * theta j) TWO_PI)"
proof -
  note th = tracks_theta [OF assms]
  show ?thesis
    unfolding TWO_PI_def
    apply (insert pi_ge_3 pi_le_32)
    apply (rule tracks_weaken)
     apply (rule tracks_mod)
        apply (rule th tracks_mul tracks_const | (simp; fail))+
    done
qed

text \<open>The radial value and the height reach the degeneracy test finite, and they are
  the values of the real model.\<close>

lemma rose_raw_js_finite:
  assumes "i < nu" and "j < nv"
  shows "tracks 100 (fst (rose_raw_js i j)) (fst (rose_raw i j))"
    and "tracks 100 (snd (rose_raw_js i j)) (snd (rose_raw i j))"
proof -
  have x: "tracks 1 (jdiv (Finite (real i)) (jsub (Finite (real nu)) (Finite 1))) (real i / real (nu - 1))"
    using assms(1) by (intro tracks_ratio) (simp_all add: nu_def)
  note E = tracks_unroll [OF assms(2)]
  note m = tracks_positive_mod [OF assms(2)]
  show "tracks 100 (fst (rose_raw_js i j)) (fst (rose_raw i j))"
    unfolding rose_raw_js_def rose_raw_def Let_def fst_conv
    apply (insert pi_ge_3 pi_le_32)
    apply (rule tracks_weaken)
     apply (rule x E m tracks_add tracks_sub tracks_mul tracks_div tracks_pow tracks_sin
                 tracks_cos tracks_clamp tracks_const | (simp; fail) | (simp add: power2_eq_square; fail))+
    done
  show "tracks 100 (snd (rose_raw_js i j)) (snd (rose_raw i j))"
    unfolding rose_raw_js_def rose_raw_def Let_def snd_conv
    apply (insert pi_ge_3 pi_le_32)
    apply (rule tracks_weaken)
     apply (rule x E m tracks_add tracks_sub tracks_mul tracks_div tracks_pow tracks_sin
                 tracks_cos tracks_clamp tracks_const | (simp; fail) | (simp add: power2_eq_square; fail))+
    done
qed


lemma float32_store_small:
  assumes "tracks B n v" and "B \<le> 10 ^ 30"
  shows "float32_store n = Finite v"
proof -
  have "\<bar>v\<bar> \<le> FLOAT32_MAX" using assms limit_single unfolding tracks_def by linarith
  then show ?thesis using assms(1) unfolding tracks_def by simp
qed

text \<open>
  Claim C2. For every grid index \<open>(i, j)\<close> with \<open>i < nu\<close> and \<open>j < nv\<close>, so for every sampled
  angle from \<open>- 2 * pi\<close> to \<open>15 * pi\<close>, the three coordinates stored for the sample are
  finite: no division by zero, no overflow of a double and no store beyond the range of
  a single occurs on the way, and the stored numbers are the coordinates of the real
  model. The positive modulo enters through \<open>tracks_positive_mod\<close>.
\<close>

theorem bloom_samples_finite:
  assumes "i < nu" and "j < nv"
  shows "rose_stored i j =
           (case rose_vertex i j of (px, py, pz) \<Rightarrow> (Finite px, Finite py, Finite pz))"
proof -
  define r0 where "r0 = fst (rose_raw i j)"
  define h0 where "h0 = snd (rose_raw i j)"
  define g where "g = (if r0 < eps then eps else r0)"
  note fin = rose_raw_js_finite [OF assms]
  have raw: "rose_raw i j = (r0, h0)" by (simp add: r0_def h0_def)
  have rawjs: "rose_raw_js i j = (Finite r0, Finite h0)"
    using fin unfolding tracks_def r0_def h0_def by (simp add: prod_eq_iff)
  have guard: "degeneracy_guard (Finite r0) (Finite h0) = (g, h0)"
    unfolding degeneracy_guard_finite g_def by simp
  have "\<bar>r0\<bar> \<le> 100" and "\<bar>h0\<bar> \<le> 100"
    using fin unfolding tracks_def r0_def h0_def by simp_all
  then have "\<bar>g\<bar> \<le> 100" unfolding g_def eps_def by auto
  then have tg: "tracks 100 (Finite g) g" by (simp add: tracks_def)
  have thh: "tracks 100 (Finite h0) h0" using \<open>\<bar>h0\<bar> \<le> 100\<close> by (simp add: tracks_def)
  note th = tracks_theta [OF assms(2)]
  have px: "tracks 31 (jmul (jmul (Finite g) (Finite 0.30)) (jsin (theta_js j)))
                      (g * 0.30 * sin (theta j))"
    apply (rule tracks_weaken)
     apply (rule tg th tracks_mul tracks_sin tracks_const | (simp; fail))+
    done
  have py: "tracks 31 (jadd (jmul (Finite h0) (Finite 0.30)) (Finite 0.62))
                      (h0 * 0.30 + 0.62)"
    apply (rule tracks_weaken)
     apply (rule thh tracks_add tracks_mul tracks_const | (simp; fail))+
    done
  have pz: "tracks 31 (jmul (jmul (Finite g) (Finite 0.30)) (jcos (theta_js j)))
                      (g * 0.30 * cos (theta j))"
    apply (rule tracks_weaken)
     apply (rule tg th tracks_mul tracks_cos tracks_const | (simp; fail))+
    done
  have lim: "(31 :: real) \<le> 10 ^ 30" by simp
  have lhs: "rose_stored i j =
               (Finite (g * 0.30 * sin (theta j)), Finite (h0 * 0.30 + 0.62),
                Finite (g * 0.30 * cos (theta j)))"
    unfolding rose_stored_def rawjs Let_def prod.case guard
      float32_store_small [OF px lim] float32_store_small [OF py lim]
      float32_store_small [OF pz lim] ..
  have rhs: "rose_vertex i j =
               (g * 0.30 * sin (theta j), h0 * 0.30 + 0.62, g * 0.30 * cos (theta j))"
    unfolding rose_vertex_def raw Let_def prod.case guard ..
  show ?thesis unfolding lhs rhs prod.case ..
qed

theorem bloom_samples_finite_witness:
  "(3 :: nat) < nu \<and> (7 :: nat) < nv \<and>
   rose_stored 3 7 = (case rose_vertex 3 7 of (px, py, pz) \<Rightarrow> (Finite px, Finite py, Finite pz))"
  using bloom_samples_finite [of 3 7] by (simp add: nu_def nv_def)

end
